theory Spec2Isabelle
  imports Main "HOL-Library.Sublist"
begin

section \<open>The Grain VS Code extension: client registries and their lifecycle\<close>

text \<open>
  The development embeds \<^verbatim>\<open>editor-extensions/vscode/src/extension.ts\<close>. The extension
  keeps two JavaScript \<^verbatim>\<open>Map\<close>s from URI strings to language clients, a \<^verbatim>\<open>Set\<close> of keys
  whose configuration handler is running, and a cache of the sorted workspace folders.
  Everything the extension asks of its host (configuration values, the workspace folders,
  the lookup of an executable) is a field of a record of host functions; the language
  client library is modelled by the calls the extension makes on a client and by the
  outcome (resolved or rejected) of each awaited promise.
\<close>

subsection \<open>Host values\<close>

text \<open>A \<^verbatim>\<open>Uri\<close> is used through \<^verbatim>\<open>scheme\<close>, \<^verbatim>\<open>fsPath\<close> and \<^verbatim>\<open>toString()\<close> only.\<close>

record Uri =
  scheme :: string
  fsPath :: string
  toString :: string

record WorkspaceFolder =
  uri :: Uri

record TextDocument =
  doc_languageId :: string
  doc_uri :: Uri

record LanguageStatusItem =
  item_id :: string
  item_busy :: bool
  item_name :: string
  item_text :: string
  item_command :: "(string \<times> string) option"

text \<open>
  The host as the extension sees it. A configuration read \<^verbatim>\<open>config.get(...)\<close> for the
  section \<^verbatim>\<open>grain\<close> scoped to a URI gives \<open>None\<close> for \<^verbatim>\<open>undefined\<close>;
  \<^verbatim>\<open>which.sync(bin)\<close> gives \<open>None\<close> where it throws;
  \<^verbatim>\<open>workspace.getWorkspaceFolder(Uri.parse(str))\<close> is one function of the URI string.
\<close>

record host =
  config_enableLSP :: "string \<Rightarrow> bool option"
  config_cliPath :: "string \<Rightarrow> string option"
  config_cliFlags :: "string \<Rightarrow> string option"
  which_sync :: "string \<Rightarrow> string option"
  workspace_workspaceFolders :: "WorkspaceFolder list option"
  workspace_getWorkspaceFolder :: "string \<Rightarrow> WorkspaceFolder option"

datatype error =
    TypeError
  | Error string
  | ClientRejected

definition extensionName :: string where
  "extensionName = ''Grain Language Server''"

definition languageId :: string where
  "languageId = ''grain''"

subsection \<open>Locating the Grain binary\<close>

definition grainBinaries :: "string list" where
  "grainBinaries = [''grain'', ''grain-mac-x64'', ''grain-linux-x64'', ''grain-win-x64'']"

fun findGrain_loop :: "(string \<Rightarrow> string option) \<Rightarrow> string list \<Rightarrow> error + string" where
  "findGrain_loop w [] = Inl (Error ''Unable to locate any Grain binary. Did you install it?'')"
| "findGrain_loop w (bin # bins) =
     (case w bin of Some grain \<Rightarrow> Inr grain | None \<Rightarrow> findGrain_loop w bins)"

definition findGrain :: "host \<Rightarrow> error + string" where
  "findGrain h = findGrain_loop (which_sync h) grainBinaries"

subsection \<open>Paths and globs\<close>

definition dirpathFromUri :: "Uri \<Rightarrow> string" where
  "dirpathFromUri u =
     (let dirPath = toString u in
      if \<not> suffix ''/'' dirPath then dirPath @ ''/'' else dirPath)"

definition globFromUri :: "Uri \<Rightarrow> string \<Rightarrow> string" where
  "globFromUri u glob = map (\<lambda>c. if c = CHR 0x5C then CHR ''/'' else c) (fsPath u @ glob)"

subsection \<open>The server command\<close>

text \<open>\<^verbatim>\<open>str.split(" ")\<close>: the pieces between the separators; the empty string gives one empty piece.\<close>

fun split_js :: "char \<Rightarrow> string \<Rightarrow> string list" where
  "split_js sep [] = [[]]"
| "split_js sep (c # cs) =
     (if c = sep then [] # split_js sep cs
      else (case split_js sep cs of [] \<Rightarrow> [[c]] | piece # pieces \<Rightarrow> (c # piece) # pieces))"

text \<open>\<^verbatim>\<open>command.replace(/\.EXE$/, ".exe")\<close>: only a final \<^verbatim>\<open>.EXE\<close> is rewritten.\<close>

definition lowercase_exe :: "string \<Rightarrow> string" where
  "lowercase_exe command =
     (if suffix ''.EXE'' command then take (length command - 4) command @ ''.exe'' else command)"

text \<open>
  \<^verbatim>\<open>getLspCommand\<close> returns \<^verbatim>\<open>undefined\<close> (here \<open>Inr None\<close>) when the LSP is not enabled,
  throws what \<^verbatim>\<open>findGrain\<close> throws, and otherwise returns the pair of the command and its
  arguments. \<^verbatim>\<open>a || b\<close> takes \<open>b\<close> when \<open>a\<close> is \<^verbatim>\<open>undefined\<close> or the empty string.
\<close>

definition getLspCommand :: "host \<Rightarrow> Uri \<Rightarrow> error + (string \<times> string list) option" where
  "getLspCommand h u =
     (let lspEnabled = config_enableLSP h (toString u) in
      if lspEnabled \<noteq> Some True then Inr None
      else
        (case (case config_cliPath h (toString u) of
                 None \<Rightarrow> findGrain h
               | Some p \<Rightarrow> if p = [] then findGrain h else Inr p) of
           Inl e \<Rightarrow> Inl e
         | Inr command \<Rightarrow>
             (let command' = lowercase_exe command;
                  flags = (case config_cliFlags h (toString u) of None \<Rightarrow> [] | Some f \<Rightarrow> f);
                  args = ''lsp'' # split_js CHR '' '' flags
              in Inr (Some (command', args)))))"

subsection \<open>Nested workspace folders\<close>

text \<open>
  The cache \<^verbatim>\<open>workspaceFolders\<close> is the only state these functions touch, so they take and
  return it alone. \<^verbatim>\<open>Array.prototype.sort\<close> with the comparator \<^verbatim>\<open>a.length - b.length\<close>
  is a stable sort by length.
\<close>

definition sortWorkspaceFolders :: "host \<Rightarrow> string list \<Rightarrow> string list" where
  "sortWorkspaceFolders h cache =
     (if length cache = 0 then
        (case workspace_workspaceFolders h of
           None \<Rightarrow> []
         | Some folders \<Rightarrow> sort_key length (map (\<lambda>folder. dirpathFromUri (uri folder)) folders))
      else cache)"

text \<open>
  The loop of \<^verbatim>\<open>getOuterMostWorkspaceFolder\<close>. The non-null assertion of the source has no
  run-time effect: when the host finds no folder the result is \<^verbatim>\<open>undefined\<close>, here \<open>None\<close>.
\<close>

fun outermost_loop :: "host \<Rightarrow> WorkspaceFolder \<Rightarrow> string list \<Rightarrow> WorkspaceFolder option" where
  "outermost_loop h folder [] = Some folder"
| "outermost_loop h folder (element # rest) =
     (let dirpath = dirpathFromUri (uri folder) in
      if prefix element dirpath then workspace_getWorkspaceFolder h element
      else outermost_loop h folder rest)"

definition getOuterMostWorkspaceFolder ::
  "host \<Rightarrow> WorkspaceFolder \<Rightarrow> string list \<Rightarrow> WorkspaceFolder option \<times> string list" where
  "getOuterMostWorkspaceFolder h folder cache =
     (let sorted = sortWorkspaceFolders h cache in (outermost_loop h folder sorted, sorted))"

subsection \<open>Language clients\<close>

text \<open>
  A client is known to the extension by reference; here it is the index of its object in
  the list of all clients constructed so far. The library's part is the life cycle of a
  client: \<^verbatim>\<open>start()\<close> and \<^verbatim>\<open>stop()\<close> are called, and the promise each returns settles later.
\<close>

datatype ClientState = Starting | Running | Stopping | Stopped | StartFailed

record DocumentFilter =
  filter_scheme :: string
  filter_language :: string
  filter_pattern :: string

text \<open>
  Modelled from the spec: the class \<^verbatim>\<open>GrainErrorHandler\<close> is imported from a file that is not
  part of the sources at hand. An instance is the triple of its constructor's arguments;
  the third one is what the specification calls the retry budget.
\<close>

record GrainErrorHandler =
  handler_name :: string
  handler_statusItem :: LanguageStatusItem
  handler_maxRestartCount :: nat

record LanguageClientOptions =
  documentSelector :: "DocumentFilter list"
  workspaceFolder :: "WorkspaceFolder option"
  errorHandler :: "GrainErrorHandler option"

record LanguageClient =
  serverOptions :: "string \<times> string list"
  clientOptions :: LanguageClientOptions
  clientState :: ClientState

text \<open>What the extension does to clients and registries, in the order it does it.\<close>

datatype event =
    ClientStart nat
  | ClientStop nat
  | FileSet string nat
  | FileDelete string
  | WorkspaceSet string nat
  | WorkspaceDelete string
  | Rethrown error
  | Rejected error

datatype handler = WorkspaceHandler WorkspaceFolder | FileHandler Uri

subsection \<open>JavaScript maps\<close>

text \<open>
  A JavaScript \<^verbatim>\<open>Map\<close> is the list of its entries in insertion order. \<^verbatim>\<open>set\<close> on a present
  key replaces the value in place and on a new key appends an entry. \<^verbatim>\<open>delete\<close> empties
  the slot of the entry and leaves the slot in the list, so the position of an iterator
  that is under way stays what it was; an emptied slot is \<open>None\<close>. \<^verbatim>\<open>has(key)\<close> is
  \<open>js_get m key \<noteq> None\<close>.
\<close>

type_synonym 'v js_map = "(string \<times> 'v) option list"

fun js_get :: "'v js_map \<Rightarrow> string \<Rightarrow> 'v option" where
  "js_get [] key = None"
| "js_get (None # m) key = js_get m key"
| "js_get (Some (k, v) # m) key = (if k = key then Some v else js_get m key)"

fun js_set :: "string \<Rightarrow> 'v \<Rightarrow> 'v js_map \<Rightarrow> 'v js_map" where
  "js_set key x [] = [Some (key, x)]"
| "js_set key x (None # m) = None # js_set key x m"
| "js_set key x (Some (k, v) # m) =
     (if k = key then Some (key, x) # m else Some (k, v) # js_set key x m)"

definition js_delete :: "string \<Rightarrow> 'v js_map \<Rightarrow> 'v js_map" where
  "js_delete key m =
     map (\<lambda>slot. case slot of
                  None \<Rightarrow> None
                | Some (k, v) \<Rightarrow> if k = key then None else Some (k, v)) m"

text \<open>
  The iterator of \<^verbatim>\<open>m.values()\<close> is a position in the list of slots, read from the map as
  it is when \<^verbatim>\<open>next()\<close> is called: \<open>js_next m i\<close> is the first non-empty slot at or after
  position \<open>i\<close>, as its position and its value, or \<open>None\<close> when the iterator is done.
\<close>

fun js_next :: "'v js_map \<Rightarrow> nat \<Rightarrow> (nat \<times> 'v) option" where
  "js_next [] i = None"
| "js_next (slot # m) 0 =
     (case slot of
        Some (k, v) \<Rightarrow> Some (0, v)
      | None \<Rightarrow> map_option (\<lambda>(j, v). (Suc j, v)) (js_next m 0))"
| "js_next (slot # m) (Suc i) = map_option (\<lambda>(j, v). (Suc j, v)) (js_next m i)"

subsection \<open>The module state\<close>

text \<open>
  \<open>configHandlers\<close> are the closures handed to \<^verbatim>\<open>workspace.onDidChangeConfiguration\<close>.
\<close>

record state =
  fileClients :: "nat js_map"
  workspaceClients :: "nat js_map"
  activeMutex :: "string set"
  workspaceFolders :: "string list"
  grainStatusBarItem :: "LanguageStatusItem option"
  grainRestartStatusItem :: "LanguageStatusItem option"
  configHandlers :: "handler list"
  clients :: "LanguageClient list"
  trace :: "event list"

definition initial_state :: state where
  "initial_state =
     \<lparr>fileClients = [], workspaceClients = [], activeMutex = {}, workspaceFolders = [],
      grainStatusBarItem = None, grainRestartStatusItem = None, configHandlers = [],
      clients = [], trace = []\<rparr>"

definition createStatusBarEntries :: "state \<Rightarrow> state" where
  "createStatusBarEntries s =
     s\<lparr>grainStatusBarItem :=
          Some \<lparr>item_id = ''grain'', item_busy = False, item_name = ''grain'',
                item_text = ''grain'', item_command = Some (''Open Grain Output'', ''grain.openOutput'')\<rparr>,
       grainRestartStatusItem :=
          Some \<lparr>item_id = ''grain.restart'', item_busy = False, item_name = ''grain.restart'',
                item_text = ''grain'', item_command = Some (''Restart Extension'', ''grain.restart'')\<rparr>\<rparr>"

subsection \<open>Asynchronous functions as frames\<close>

text \<open>
  An \<^verbatim>\<open>async\<close> function runs until its next \<^verbatim>\<open>await\<close> and is resumed later, when the
  awaited promise has settled; in between, other handlers run. A task is the list of the
  frames it still has to run. A call frame stands for a call that has not begun; an
  await frame for a function suspended at \<^verbatim>\<open>await client.start()\<close> or
  \<^verbatim>\<open>await client.stop()\<close>, holding the local variables of the suspended function;
  \<open>Release\<close> is the \<^verbatim>\<open>finally\<close> callback of \<^verbatim>\<open>mutex\<close>. \<open>DeactivateCall\<close> is a call of
  \<^verbatim>\<open>deactivate\<close>; \<open>AwaitFilesStop client i\<close> is \<^verbatim>\<open>deactivate\<close> suspended at
  \<^verbatim>\<open>await client.stop()\<close> in its first loop, the iterator of \<^verbatim>\<open>fileClients.values()\<close> at
  position \<open>i\<close>, and \<open>AwaitWorkspacesStop client i\<close> the same in its second loop.
\<close>

datatype frame =
    AddFileClient Uri
  | AwaitFileStart Uri nat
  | RemoveFileClient Uri
  | AwaitFileStop Uri nat
  | AddWorkspaceClient WorkspaceFolder
  | AwaitWorkspaceStart WorkspaceFolder nat
  | RemoveWorkspaceClient WorkspaceFolder
  | AwaitWorkspaceStop WorkspaceFolder nat
  | DeactivateCall
  | AwaitFilesStop nat nat
  | AwaitWorkspacesStop nat nat
  | Subscribe handler
  | Raise error
  | Release string

fun is_Release :: "frame \<Rightarrow> bool" where
  "is_Release (Release key) = True"
| "is_Release _ = False"

subsubsection \<open>The library's side of a client\<close>

definition client_start :: "LanguageClient \<Rightarrow> state \<Rightarrow> nat \<times> state" where
  "client_start obj s =
     (let client = length (clients s) in
      (client, s\<lparr>clients := clients s @ [obj\<lparr>clientState := Starting\<rparr>],
                  trace := trace s @ [ClientStart client]\<rparr>))"

definition set_clientState :: "nat \<Rightarrow> ClientState \<Rightarrow> state \<Rightarrow> state" where
  "set_clientState client st s =
     (if client < length (clients s)
      then s\<lparr>clients := (clients s)[client := (clients s ! client)\<lparr>clientState := st\<rparr>]\<rparr>
      else s)"

definition client_stop :: "nat \<Rightarrow> state \<Rightarrow> state" where
  "client_stop client s = (set_clientState client Stopping s)\<lparr>trace := trace s @ [ClientStop client]\<rparr>"

subsubsection \<open>File clients\<close>

definition fileClientOptions :: "Uri \<Rightarrow> state \<Rightarrow> LanguageClientOptions" where
  "fileClientOptions u s =
     \<lparr>documentSelector =
        [\<lparr>filter_scheme = scheme u, filter_language = languageId,
          filter_pattern = globFromUri u []\<rparr>],
      workspaceFolder = None,
      errorHandler =
        (case grainStatusBarItem s of
           Some item \<Rightarrow>
             Some \<lparr>handler_name = extensionName, handler_statusItem = item,
                   handler_maxRestartCount = 5\<rparr>
         | None \<Rightarrow> None)\<rparr>"

text \<open>
  \<^verbatim>\<open>startFileClient\<close> up to its \<^verbatim>\<open>await client.start()\<close>. Destructuring \<^verbatim>\<open>undefined\<close>
  throws a \<^verbatim>\<open>TypeError\<close>. The informational log line and the registration of the completion
  provider touch neither registry and are left out.
\<close>

definition startFileClient :: "host \<Rightarrow> Uri \<Rightarrow> state \<Rightarrow> error + nat \<times> state" where
  "startFileClient h u s =
     (case getLspCommand h u of
        Inl e \<Rightarrow> Inl e
      | Inr None \<Rightarrow> Inl TypeError
      | Inr (Some (command, args)) \<Rightarrow>
          Inr (client_start
                 \<lparr>serverOptions = (command, args), clientOptions = fileClientOptions u s,
                  clientState = Starting\<rparr> s))"

definition addFileClient :: "host \<Rightarrow> Uri \<Rightarrow> state \<Rightarrow> (error + frame list) \<times> state" where
  "addFileClient h u s =
     (let file = toString u in
      if js_get (fileClients s) file = None then
        (case startFileClient h u s of
           Inl e \<Rightarrow> (Inl e, s)
         | Inr (client, s') \<Rightarrow> (Inr [AwaitFileStart u client], s'))
      else (Inr [], s))"

definition addFileClient_resume ::
  "bool \<Rightarrow> Uri \<Rightarrow> nat \<Rightarrow> state \<Rightarrow> (error + frame list) \<times> state" where
  "addFileClient_resume ok u client s =
     (let file = toString u in
      if ok then
        (let s' = set_clientState client Running s in
         (Inr [], s'\<lparr>fileClients := js_set file client (fileClients s'),
                      trace := trace s' @ [FileSet file client]\<rparr>))
      else (Inl ClientRejected, set_clientState client StartFailed s))"

definition removeFileClient :: "Uri \<Rightarrow> state \<Rightarrow> (error + frame list) \<times> state" where
  "removeFileClient u s =
     (let file = toString u in
      case js_get (fileClients s) file of
        Some client \<Rightarrow> (Inr [AwaitFileStop u client], client_stop client s)
      | None \<Rightarrow> (Inr [], s))"

definition removeFileClient_resume ::
  "bool \<Rightarrow> Uri \<Rightarrow> nat \<Rightarrow> state \<Rightarrow> (error + frame list) \<times> state" where
  "removeFileClient_resume ok u client s =
     (let file = toString u in
      if ok then
        (let s' = set_clientState client Stopped s in
         (Inr [], s'\<lparr>fileClients := js_delete file (fileClients s'),
                      trace := trace s' @ [FileDelete file]\<rparr>))
      else (Inl ClientRejected, s))"

subsubsection \<open>Workspace clients\<close>

definition workspaceClientOptions :: "WorkspaceFolder \<Rightarrow> LanguageClientOptions" where
  "workspaceClientOptions folder =
     \<lparr>documentSelector =
        [\<lparr>filter_scheme = ''file'', filter_language = languageId,
          filter_pattern = globFromUri (uri folder) ''/**/*''\<rparr>],
      workspaceFolder = Some folder,
      errorHandler = None\<rparr>"

definition startWorkspaceClient :: "host \<Rightarrow> WorkspaceFolder \<Rightarrow> state \<Rightarrow> error + nat \<times> state" where
  "startWorkspaceClient h folder s =
     (case getLspCommand h (uri folder) of
        Inl e \<Rightarrow> Inl e
      | Inr None \<Rightarrow> Inl TypeError
      | Inr (Some (command, args)) \<Rightarrow>
          Inr (client_start
                 \<lparr>serverOptions = (command, args), clientOptions = workspaceClientOptions folder,
                  clientState = Starting\<rparr> s))"

definition addWorkspaceClient ::
  "host \<Rightarrow> WorkspaceFolder \<Rightarrow> state \<Rightarrow> (error + frame list) \<times> state" where
  "addWorkspaceClient h folder s =
     (let workspacePath = toString (uri folder) in
      if js_get (workspaceClients s) workspacePath = None then
        (case startWorkspaceClient h folder s of
           Inl e \<Rightarrow> (Inl e, s)
         | Inr (client, s') \<Rightarrow> (Inr [AwaitWorkspaceStart folder client], s'))
      else (Inr [], s))"

definition addWorkspaceClient_resume ::
  "bool \<Rightarrow> WorkspaceFolder \<Rightarrow> nat \<Rightarrow> state \<Rightarrow> (error + frame list) \<times> state" where
  "addWorkspaceClient_resume ok folder client s =
     (let workspacePath = toString (uri folder) in
      if ok then
        (let s' = set_clientState client Running s in
         (Inr [], s'\<lparr>workspaceClients := js_set workspacePath client (workspaceClients s'),
                      trace := trace s' @ [WorkspaceSet workspacePath client]\<rparr>))
      else (Inl ClientRejected, set_clientState client StartFailed s))"

definition removeWorkspaceClient :: "WorkspaceFolder \<Rightarrow> state \<Rightarrow> (error + frame list) \<times> state" where
  "removeWorkspaceClient folder s =
     (let workspacePath = toString (uri folder) in
      case js_get (workspaceClients s) workspacePath of
        Some client \<Rightarrow> (Inr [AwaitWorkspaceStop folder client], client_stop client s)
      | None \<Rightarrow> (Inr [], s))"

definition removeWorkspaceClient_resume ::
  "bool \<Rightarrow> WorkspaceFolder \<Rightarrow> nat \<Rightarrow> state \<Rightarrow> (error + frame list) \<times> state" where
  "removeWorkspaceClient_resume ok folder client s =
     (let workspacePath = toString (uri folder) in
      if ok then
        (let s' = set_clientState client Stopped s in
         (Inr [], s'\<lparr>workspaceClients := js_delete workspacePath (workspaceClients s'),
                      trace := trace s' @ [WorkspaceDelete workspacePath]\<rparr>))
      else (Inl ClientRejected, s))"

subsubsection \<open>Deactivation\<close>

text \<open>
  The two loops of \<^verbatim>\<open>deactivate\<close>, each from an iterator position up to the next
  \<^verbatim>\<open>await client.stop()\<close>. The iterators read the maps as they are when asked, so an entry
  stored while \<^verbatim>\<open>deactivate\<close> is suspended is met if the iterator of its map has not yet
  passed its slot. When the first loop is done the second begins at once.
\<close>

definition deactivate_workspaces :: "nat \<Rightarrow> state \<Rightarrow> (error + frame list) \<times> state" where
  "deactivate_workspaces i s =
     (case js_next (workspaceClients s) i of
        Some (j, client) \<Rightarrow> (Inr [AwaitWorkspacesStop client (Suc j)], client_stop client s)
      | None \<Rightarrow> (Inr [], s))"

definition deactivate_files :: "nat \<Rightarrow> state \<Rightarrow> (error + frame list) \<times> state" where
  "deactivate_files i s =
     (case js_next (fileClients s) i of
        Some (j, client) \<Rightarrow> (Inr [AwaitFilesStop client (Suc j)], client_stop client s)
      | None \<Rightarrow> deactivate_workspaces 0 s)"

subsubsection \<open>One frame, up to the next suspension\<close>

text \<open>
  \<open>exec h ok f s\<close> runs frame \<open>f\<close> to its next \<^verbatim>\<open>await\<close> or to its end. For an await frame,
  \<open>ok\<close> tells whether the awaited promise resolved or rejected; call frames do not read it.
  The result is the frames that take the place of \<open>f\<close>, or the error thrown.
\<close>

fun exec :: "host \<Rightarrow> bool \<Rightarrow> frame \<Rightarrow> state \<Rightarrow> (error + frame list) \<times> state" where
  "exec h ok (AddFileClient u) s = addFileClient h u s"
| "exec h ok (AwaitFileStart u client) s = addFileClient_resume ok u client s"
| "exec h ok (RemoveFileClient u) s = removeFileClient u s"
| "exec h ok (AwaitFileStop u client) s = removeFileClient_resume ok u client s"
| "exec h ok (AddWorkspaceClient folder) s = addWorkspaceClient h folder s"
| "exec h ok (AwaitWorkspaceStart folder client) s = addWorkspaceClient_resume ok folder client s"
| "exec h ok (RemoveWorkspaceClient folder) s = removeWorkspaceClient folder s"
| "exec h ok (AwaitWorkspaceStop folder client) s = removeWorkspaceClient_resume ok folder client s"
| "exec h ok DeactivateCall s = deactivate_files 0 s"
| "exec h ok (AwaitFilesStop client i) s =
     (if ok then deactivate_files i (set_clientState client Stopped s)
      else (Inl ClientRejected, s))"
| "exec h ok (AwaitWorkspacesStop client i) s =
     (if ok then deactivate_workspaces i (set_clientState client Stopped s)
      else (Inl ClientRejected, s))"
| "exec h ok (Subscribe cb) s = (Inr [], s\<lparr>configHandlers := configHandlers s @ [cb]\<rparr>)"
| "exec h ok (Raise e) s = (Inl e, s)"
| "exec h ok (Release key) s = (Inr [], s\<lparr>activeMutex := activeMutex s - {key}\<rparr>)"

text \<open>
  One step of a task whose first frame is \<open>f\<close>. A thrown error ends the function. Under
  \<^verbatim>\<open>mutex\<close> the \<^verbatim>\<open>catch\<close> callback re-throws it from a microtask and the
  \<^verbatim>\<open>finally\<close> callback still runs, so only the \<open>Release\<close> frames stay; without it the
  task's promise is rejected with the error.
\<close>

definition advance ::
  "host \<Rightarrow> bool \<Rightarrow> frame \<Rightarrow> frame list \<Rightarrow> state \<Rightarrow> (error option \<times> frame list) \<times> state" where
  "advance h ok f fs s =
     (case exec h ok f s of
        (Inl e, s') \<Rightarrow>
          (if filter is_Release fs \<noteq> []
           then ((None, filter is_Release fs), s'\<lparr>trace := trace s' @ [Rethrown e]\<rparr>)
           else ((Some e, []), s'))
      | (Inr fs', s') \<Rightarrow> ((None, fs' @ fs), s'))"

text \<open>
  Every step of a task makes progress. A call frame or an await frame of the add and
  remove functions is replaced by fewer frames (\<open>weight\<close>). A frame of \<^verbatim>\<open>deactivate\<close> is
  replaced by one whose iterator is further on; the slots it still has before it
  (\<open>ahead\<close>) can grow only when a frame of the first kind stores an entry.
\<close>

fun weight :: "frame \<Rightarrow> nat" where
  "weight (AddFileClient u) = 2"
| "weight (RemoveFileClient u) = 2"
| "weight (AddWorkspaceClient folder) = 2"
| "weight (RemoveWorkspaceClient folder) = 2"
| "weight DeactivateCall = 0"
| "weight (AwaitFilesStop client i) = 0"
| "weight (AwaitWorkspacesStop client i) = 0"
| "weight _ = 1"

fun ahead :: "state \<Rightarrow> frame \<Rightarrow> nat" where
  "ahead s DeactivateCall = 2 * length (fileClients s) + 2 * length (workspaceClients s) + 4"
| "ahead s (AwaitFilesStop client i) =
     2 * (length (fileClients s) - i) + 2 * length (workspaceClients s) + 3"
| "ahead s (AwaitWorkspacesStop client i) = 2 * (length (workspaceClients s) - i) + 1"
| "ahead s _ = 0"

lemma js_next_bounds: "js_next m i = Some (j, v) \<Longrightarrow> i \<le> j \<and> j < length m"
proof (induction m i arbitrary: j rule: js_next.induct)
  case (1 i)
  then show ?case by simp
next
  case (2 slot m)
  then show ?case by (cases slot) auto
next
  case (3 slot m i)
  then show ?case by auto
qed

lemma set_clientState_maps:
  "fileClients (set_clientState c st s) = fileClients s"
  "workspaceClients (set_clientState c st s) = workspaceClients s"
  by (simp_all add: set_clientState_def)

lemma client_stop_maps:
  "fileClients (client_stop c s) = fileClients s"
  "workspaceClients (client_stop c s) = workspaceClients s"
  by (simp_all add: client_stop_def set_clientState_def)

lemma deactivate_workspaces_ahead:
  assumes "deactivate_workspaces i s = (Inr fs', s')"
  shows "sum_list (map weight fs') = 0 \<and>
         sum_list (map (ahead s') fs') < 2 * (length (workspaceClients s) - i) + 1 \<and>
         length (fileClients s') = length (fileClients s) \<and>
         length (workspaceClients s') = length (workspaceClients s)"
proof (cases "js_next (workspaceClients s) i")
  case None
  with assms show ?thesis by (auto simp: deactivate_workspaces_def)
next
  case (Some p)
  obtain j client where p: "p = (j, client)" by (cases p)
  from Some p have "i \<le> j \<and> j < length (workspaceClients s)" by (auto dest: js_next_bounds)
  with assms Some p show ?thesis
    by (auto simp: deactivate_workspaces_def client_stop_maps)
qed

lemma deactivate_files_ahead:
  assumes "deactivate_files i s = (Inr fs', s')"
  shows "sum_list (map weight fs') = 0 \<and>
         sum_list (map (ahead s') fs') <
           2 * (length (fileClients s) - i) + 2 * length (workspaceClients s) + 3 \<and>
         length (fileClients s') = length (fileClients s) \<and>
         length (workspaceClients s') = length (workspaceClients s)"
proof (cases "js_next (fileClients s) i")
  case None
  with assms have "deactivate_workspaces 0 s = (Inr fs', s')"
    by (simp add: deactivate_files_def)
  from deactivate_workspaces_ahead [OF this] show ?thesis by auto
next
  case (Some p)
  obtain j client where p: "p = (j, client)" by (cases p)
  from Some p have "i \<le> j \<and> j < length (fileClients s)" by (auto dest: js_next_bounds)
  with assms Some p show ?thesis
    by (auto simp: deactivate_files_def client_stop_maps)
qed

lemma exec_weight:
  "exec h ok f s = (Inr fs', s') \<Longrightarrow> 0 < weight f \<Longrightarrow> sum_list (map weight fs') < weight f"
  by (cases f)
     (auto simp: addFileClient_def addFileClient_resume_def removeFileClient_def
        removeFileClient_resume_def addWorkspaceClient_def addWorkspaceClient_resume_def
        removeWorkspaceClient_def removeWorkspaceClient_resume_def Let_def
      split: if_splits sum.splits option.splits prod.splits)

lemma exec_ahead:
  assumes "exec h ok f s = (Inr fs', s')" and "weight f = 0"
  shows "sum_list (map weight fs') = 0 \<and> sum_list (map (ahead s') fs') < ahead s f \<and>
         length (fileClients s') = length (fileClients s) \<and>
         length (workspaceClients s') = length (workspaceClients s)"
proof (cases f)
  case DeactivateCall
  with assms have "deactivate_files 0 s = (Inr fs', s')" by simp
  from deactivate_files_ahead [OF this] DeactivateCall show ?thesis by simp
next
  case (AwaitFilesStop client i)
  with assms have "deactivate_files i (set_clientState client Stopped s) = (Inr fs', s')"
    by (simp split: if_splits)
  from deactivate_files_ahead [OF this] AwaitFilesStop show ?thesis
    by (simp add: set_clientState_maps)
next
  case (AwaitWorkspacesStop client i)
  with assms have "deactivate_workspaces i (set_clientState client Stopped s) = (Inr fs', s')"
    by (simp split: if_splits)
  from deactivate_workspaces_ahead [OF this] AwaitWorkspacesStop show ?thesis
    by (simp add: set_clientState_maps)
qed (use assms in simp_all)

lemma ahead_pos: "weight f = 0 \<Longrightarrow> 0 < ahead s f"
  by (cases f) simp_all

lemma ahead_lengths:
  "length (fileClients s') = length (fileClients s) \<Longrightarrow>
   length (workspaceClients s') = length (workspaceClients s) \<Longrightarrow> ahead s' f = ahead s f"
  by (cases f) simp_all

lemma sum_weight_filter: "sum_list (map weight (filter P fs)) \<le> sum_list (map weight fs)"
  by (induction fs) auto

lemma ahead_Release: "sum_list (map (ahead s) (filter is_Release fs)) = 0"
proof (induction fs)
  case Nil
  show ?case by simp
next
  case (Cons f fs)
  then show ?case by (cases f) simp_all
qed

lemma advance_Inl:
  "exec h ok f s = (Inl e, s1) \<Longrightarrow> advance h ok f fs s = ((None, fs'), s') \<Longrightarrow>
   fs' = filter is_Release fs"
  by (simp add: advance_def split: if_splits)

lemma advance_Inr:
  "exec h ok f s = (Inr fs1, s1) \<Longrightarrow> advance h ok f fs s = ((None, fs'), s') \<Longrightarrow>
   fs' = fs1 @ fs \<and> s' = s1"
  by (simp add: advance_def)

lemma sum_ahead_lengths:
  "length (fileClients s') = length (fileClients s) \<Longrightarrow>
   length (workspaceClients s') = length (workspaceClients s) \<Longrightarrow>
   sum_list (map (ahead s') fs) = sum_list (map (ahead s) fs)"
  by (induction fs) (simp_all add: ahead_lengths [of s' s])

lemma advance_progress:
  assumes "advance h ok f fs s = ((None, fs'), s')"
  shows "sum_list (map weight fs') < sum_list (map weight (f # fs)) \<or>
         sum_list (map weight fs') = sum_list (map weight (f # fs)) \<and>
         sum_list (map (ahead s') fs') < sum_list (map (ahead s) (f # fs))"
proof (cases "exec h ok f s")
  case (Pair r s1)
  show ?thesis
  proof (cases r)
    case (Inl e)
    from Pair Inl have "exec h ok f s = (Inl e, s1)" by simp
    from advance_Inl [OF this assms] have fs': "fs' = filter is_Release fs" .
    have b: "sum_list (map (ahead s') (filter is_Release fs)) = 0" by (rule ahead_Release)
    have c: "sum_list (map weight (filter is_Release fs)) \<le> sum_list (map weight fs)"
      by (rule sum_weight_filter)
    have d: "sum_list (map (ahead s) (f # fs)) = ahead s f + sum_list (map (ahead s) fs)"
      and e: "sum_list (map weight (f # fs)) = weight f + sum_list (map weight fs)"
      by simp_all
    show ?thesis
    proof (cases "weight f = 0")
      case True
      have a: "0 < ahead s f" by (rule ahead_pos [OF True])
      from a c True show ?thesis unfolding fs' b d e by linarith
    next
      case False
      with c show ?thesis unfolding fs' e by linarith
    qed
  next
    case (Inr fs1)
    from Pair Inr have ex: "exec h ok f s = (Inr fs1, s1)" by simp
    from advance_Inr [OF this assms] have fs': "fs' = fs1 @ fs" and s': "s' = s1" by simp_all
    have d: "sum_list (map (ahead s) (f # fs)) = ahead s f + sum_list (map (ahead s) fs)"
      and e: "sum_list (map weight (f # fs)) = weight f + sum_list (map weight fs)"
      and d': "sum_list (map (ahead s1) (fs1 @ fs)) =
                 sum_list (map (ahead s1) fs1) + sum_list (map (ahead s1) fs)"
      and e': "sum_list (map weight (fs1 @ fs)) =
                 sum_list (map weight fs1) + sum_list (map weight fs)"
      by simp_all
    show ?thesis
    proof (cases "weight f = 0")
      case True
      from exec_ahead [OF ex True]
      have a: "sum_list (map weight fs1) = 0"
        and b: "sum_list (map (ahead s1) fs1) < ahead s f"
        and c1: "length (fileClients s1) = length (fileClients s)"
        and c2: "length (workspaceClients s1) = length (workspaceClients s)"
        by blast+
      have g: "sum_list (map (ahead s1) fs) = sum_list (map (ahead s) fs)"
        by (rule sum_ahead_lengths [OF c1 c2])
      from a b True show ?thesis unfolding fs' s' d e d' e' g by linarith
    next
      case False
      then have "0 < weight f" by simp
      from exec_weight [OF ex this] show ?thesis unfolding fs' e e' by linarith
    qed
  qed
qed

text \<open>
  A task run alone, to its end, with no other task in between. The outcome of an awaited
  promise is the environment's choice: \<open>ora\<close> gives it as a function of the number of
  events so far. Every \<^verbatim>\<open>await\<close> of a library promise follows a call that adds an event,
  so two awaits of one run never read the same index and every sequence of outcomes is
  some \<open>ora\<close>. The result is the error the task's promise is rejected with, if any.
\<close>

function run_frames ::
  "host \<Rightarrow> (nat \<Rightarrow> bool) \<Rightarrow> frame list \<Rightarrow> state \<Rightarrow> error option \<times> state" where
  "run_frames h ora [] s = (None, s)"
| "run_frames h ora (f # fs) s =
     (case advance h (ora (length (trace s))) f fs s of
        ((Some e, fs'), s') \<Rightarrow> (Some e, s')
      | ((None, fs'), s') \<Rightarrow> run_frames h ora fs' s')"
  by pat_completeness auto
termination
proof (relation "measures [\<lambda>(h, ora, fs, s). sum_list (map weight fs),
                          \<lambda>(h, ora, fs, s). sum_list (map (ahead s) fs)]", goal_cases)
  case 1
  show ?case by simp
next
  case (2 h ora f fs s x1 s' r fs')
  then have "advance h (ora (length (trace s))) f fs s = ((None, fs'), s')" by simp
  from advance_progress [OF this] show ?case by auto
qed

subsection \<open>The entry points the host calls\<close>

text \<open>
  Each entry point runs synchronously up to the frames it leaves to be run. A
  \<^verbatim>\<open>ConfigurationChangeEvent\<close> is its \<^verbatim>\<open>affectsConfiguration(section, scope)\<close>, the scope given
  by the URI string.
\<close>

type_synonym ConfigurationChangeEvent = "string \<Rightarrow> string \<Rightarrow> bool"

record WorkspaceFoldersChangeEvent =
  added :: "WorkspaceFolder list"
  removed :: "WorkspaceFolder list"

text \<open>
  \<^verbatim>\<open>mutex(key, fn)\<close>: the returned closure, called on a state. It returns at once when the
  key is held; otherwise it takes the key and runs \<^verbatim>\<open>fn\<close>, whose body is the frames
  \<open>body\<close>, with the \<^verbatim>\<open>finally\<close> callback after it.
\<close>

definition mutex :: "string \<Rightarrow> frame list \<Rightarrow> state \<Rightarrow> frame list \<times> state" where
  "mutex key body s =
     (if key \<in> activeMutex s then ([], s)
      else (body @ [Release key], s\<lparr>activeMutex := insert key (activeMutex s)\<rparr>))"

definition configSections :: "string list" where
  "configSections = [''grain.cliFlags'', ''grain.cliPath'', ''grain.enableLSP'']"

fun handler_key :: "handler \<Rightarrow> string" where
  "handler_key (WorkspaceHandler folder) = toString (uri folder)"
| "handler_key (FileHandler u) = toString u"

fun handler_body :: "handler \<Rightarrow> ConfigurationChangeEvent \<Rightarrow> frame list" where
  "handler_body (WorkspaceHandler folder) e =
     concat (map (\<lambda>section. if e section (toString (uri folder))
                             then [RemoveWorkspaceClient folder, AddWorkspaceClient folder]
                             else []) configSections)"
| "handler_body (FileHandler u) e =
     concat (map (\<lambda>section. if e section (toString u)
                             then [RemoveFileClient u, AddFileClient u]
                             else []) configSections)"

definition configHandler ::
  "handler \<Rightarrow> ConfigurationChangeEvent \<Rightarrow> state \<Rightarrow> frame list \<times> state" where
  "configHandler cb e s = mutex (handler_key cb) (handler_body cb e) s"

text \<open>
  \<^verbatim>\<open>didOpenTextDocument\<close>. When the host resolves the outermost folder to \<^verbatim>\<open>undefined\<close>,
  \<^verbatim>\<open>addWorkspaceClient\<close> throws on reading \<^verbatim>\<open>workspaceFolder.uri\<close>.
\<close>

definition didOpenTextDocument :: "host \<Rightarrow> TextDocument \<Rightarrow> state \<Rightarrow> frame list \<times> state" where
  "didOpenTextDocument h document s =
     (if doc_languageId document \<noteq> languageId then ([], s)
      else
        (let u = doc_uri document in
         case workspace_getWorkspaceFolder h (toString u) of
           Some folder \<Rightarrow>
             (case getOuterMostWorkspaceFolder h folder (workspaceFolders s) of
                (outer, cache) \<Rightarrow>
                  (case outer of
                     None \<Rightarrow> ([Raise TypeError], s\<lparr>workspaceFolders := cache\<rparr>)
                   | Some folder' \<Rightarrow>
                       ([AddWorkspaceClient folder', Subscribe (WorkspaceHandler folder')],
                        s\<lparr>workspaceFolders := cache\<rparr>)))
         | None \<Rightarrow>
             (if scheme u \<noteq> ''file'' \<and> scheme u \<noteq> ''untitled'' then ([], s)
              else ([AddFileClient u, Subscribe (FileHandler u)], s))))"

definition didChangeWorkspaceFolders ::
  "WorkspaceFoldersChangeEvent \<Rightarrow> state \<Rightarrow> frame list \<times> state" where
  "didChangeWorkspaceFolders ev s =
     (map RemoveWorkspaceClient (removed ev), s\<lparr>workspaceFolders := []\<rparr>)"

text \<open>\<^verbatim>\<open>deactivate\<close>: the call, whose loops are \<open>deactivate_files\<close> and \<open>deactivate_workspaces\<close>.\<close>

definition deactivate :: "state \<Rightarrow> frame list \<times> state" where
  "deactivate s = ([DeactivateCall], s)"

subsection \<open>Interleaved tasks\<close>

text \<open>
  The host's event loop: an event calls an entry point, which runs synchronously up to
  its first \<^verbatim>\<open>await\<close> and leaves a task behind; \<open>Resume i ok\<close> continues task \<open>i\<close> when the
  promise it awaits has settled. A finished task stays in the list as \<open>[]\<close>.
\<close>

record system =
  ext :: state
  tasks :: "frame list list"

datatype action =
    DidOpenTextDocument TextDocument
  | DidChangeConfiguration ConfigurationChangeEvent
  | DidChangeWorkspaceFolders WorkspaceFoldersChangeEvent
  | Deactivate
  | Resume nat bool

definition settle :: "error option \<Rightarrow> state \<Rightarrow> state" where
  "settle r s = (case r of None \<Rightarrow> s | Some e \<Rightarrow> s\<lparr>trace := trace s @ [Rejected e]\<rparr>)"

text \<open>
  The synchronous part of a new task is its first call frame; the \<^verbatim>\<open>finally\<close> callback
  never runs synchronously.
\<close>

definition spawn :: "host \<Rightarrow> frame list \<times> state \<Rightarrow> system \<Rightarrow> system" where
  "spawn h entry sys =
     (case entry of
        ([], s) \<Rightarrow> \<lparr>ext = s, tasks = tasks sys @ [[]]\<rparr>
      | (f # fs, s) \<Rightarrow>
          (if is_Release f then \<lparr>ext = s, tasks = tasks sys @ [f # fs]\<rparr>
           else
             (case advance h True f fs s of
                ((r, fs'), s') \<Rightarrow> \<lparr>ext = settle r s', tasks = tasks sys @ [fs']\<rparr>)))"

fun step :: "host \<Rightarrow> action \<Rightarrow> system \<Rightarrow> system" where
  "step h (DidOpenTextDocument document) sys = spawn h (didOpenTextDocument h document (ext sys)) sys"
| "step h (DidChangeConfiguration e) sys =
     foldl (\<lambda>sys' cb. spawn h (configHandler cb e (ext sys')) sys') sys (configHandlers (ext sys))"
| "step h (DidChangeWorkspaceFolders ev) sys = spawn h (didChangeWorkspaceFolders ev (ext sys)) sys"
| "step h Deactivate sys = spawn h (deactivate (ext sys)) sys"
| "step h (Resume i ok) sys =
     (if i < length (tasks sys) then
        (case tasks sys ! i of
           [] \<Rightarrow> sys
         | f # fs \<Rightarrow>
             (case advance h ok f fs (ext sys) of
                ((r, fs'), s') \<Rightarrow> \<lparr>ext = settle r s', tasks = (tasks sys)[i := fs']\<rparr>))
      else sys)"

text \<open>A run of the event loop; the host's configuration may differ from step to step.\<close>

fun run :: "(host \<times> action) list \<Rightarrow> system \<Rightarrow> system" where
  "run [] sys = sys"
| "run ((h, a) # rest) sys = run rest (step h a sys)"

section \<open>The order of removal and re-adding\<close>

text \<open>
  What a configuration handler does to the client of its key, read off the events. The
  phases of the key: no client registered; a client registered; the registered client's
  \<^verbatim>\<open>stop()\<close> called; a new client's \<^verbatim>\<open>start()\<close> called. \<open>observe\<close> accepts an event only
  in the phase where removal comes before re-adding: a registered client is stopped, its
  entry is deleted only after its stop, a client is started only when none is registered,
  and the entry is set to the client just started. A re-thrown error changes nothing; any
  other event is refused.
\<close>

datatype phase = Absent | Present nat | Halted nat | Begun nat

fun registered :: "handler \<Rightarrow> state \<Rightarrow> nat option" where
  "registered (WorkspaceHandler folder) s = js_get (workspaceClients s) (toString (uri folder))"
| "registered (FileHandler u) s = js_get (fileClients s) (toString u)"

fun phase_of :: "nat option \<Rightarrow> phase" where
  "phase_of None = Absent"
| "phase_of (Some client) = Present client"

fun delete_event :: "handler \<Rightarrow> event" where
  "delete_event (WorkspaceHandler folder) = WorkspaceDelete (toString (uri folder))"
| "delete_event (FileHandler u) = FileDelete (toString u)"

fun set_event :: "handler \<Rightarrow> nat \<Rightarrow> event" where
  "set_event (WorkspaceHandler folder) client = WorkspaceSet (toString (uri folder)) client"
| "set_event (FileHandler u) client = FileSet (toString u) client"

fun observe :: "handler \<Rightarrow> phase \<Rightarrow> event \<Rightarrow> phase option" where
  "observe cb (Present client) (ClientStop c) = (if c = client then Some (Halted client) else None)"
| "observe cb Absent (ClientStart c) = Some (Begun c)"
| "observe cb ph (Rethrown e) = Some ph"
| "observe cb (Halted client) ev = (if ev = delete_event cb then Some Absent else None)"
| "observe cb (Begun client) ev = (if ev = set_event cb client then Some (Present client) else None)"
| "observe cb ph ev = None"

fun track :: "handler \<Rightarrow> phase \<Rightarrow> event list \<Rightarrow> phase option" where
  "track cb ph [] = Some ph"
| "track cb ph (ev # evs) =
     (case observe cb ph ev of None \<Rightarrow> None | Some ph' \<Rightarrow> track cb ph' evs)"

fun remove_frame :: "handler \<Rightarrow> frame" where
  "remove_frame (WorkspaceHandler folder) = RemoveWorkspaceClient folder"
| "remove_frame (FileHandler u) = RemoveFileClient u"

fun add_frame :: "handler \<Rightarrow> frame" where
  "add_frame (WorkspaceHandler folder) = AddWorkspaceClient folder"
| "add_frame (FileHandler u) = AddFileClient u"

section \<open>Guards held by pending tasks\<close>

text \<open>
  A task that still holds a \<open>Release key\<close> frame is a call of a guarded function for \<open>key\<close>
  that has not settled. \<open>mutex_inv\<close>: no task releases a key twice, no two tasks release
  the same key, and the keys in \<^verbatim>\<open>activeMutex\<close> are those some pending task will release.
\<close>

fun release_keys :: "frame list \<Rightarrow> string list" where
  "release_keys [] = []"
| "release_keys (Release key # fs) = key # release_keys fs"
| "release_keys (f # fs) = release_keys fs"

definition mutex_inv :: "system \<Rightarrow> bool" where
  "mutex_inv sys \<longleftrightarrow>
     (\<forall>i<length (tasks sys). distinct (release_keys (tasks sys ! i))) \<and>
     (\<forall>i<length (tasks sys). \<forall>j<length (tasks sys). i \<noteq> j \<longrightarrow>
        set (release_keys (tasks sys ! i)) \<inter> set (release_keys (tasks sys ! j)) = {}) \<and>
     (\<forall>key. key \<in> activeMutex (ext sys) \<longleftrightarrow>
        (\<exists>i<length (tasks sys). key \<in> set (release_keys (tasks sys ! i))))"

section \<open>Concrete hosts and states\<close>

text \<open>Small hosts on which the theorems below are exercised.\<close>

definition host_none :: host where
  "host_none =
     \<lparr>config_enableLSP = (\<lambda>u. Some True), config_cliPath = (\<lambda>u. None),
      config_cliFlags = (\<lambda>u. None), which_sync = (\<lambda>b. None),
      workspace_workspaceFolders = None, workspace_getWorkspaceFolder = (\<lambda>u. None)\<rparr>"

definition host_linux :: host where
  "host_linux =
     host_none\<lparr>which_sync :=
       (\<lambda>b. if b = ''grain-linux-x64'' \<or> b = ''grain-win-x64''
            then Some (''/usr/local/bin/'' @ b) else None)\<rparr>"

definition uriA :: Uri where
  "uriA = \<lparr>scheme = ''file'', fsPath = ''/ws/a'', toString = ''file:///ws/a''\<rparr>"

definition uriB :: Uri where
  "uriB = \<lparr>scheme = ''file'', fsPath = ''/ws/b'', toString = ''file:///ws/b''\<rparr>"

definition uriX :: Uri where
  "uriX = \<lparr>scheme = ''file'', fsPath = ''/tmp/x.gr'', toString = ''file:///tmp/x.gr''\<rparr>"

definition folderA :: WorkspaceFolder where
  "folderA = \<lparr>uri = uriA\<rparr>"

definition folderB :: WorkspaceFolder where
  "folderB = \<lparr>uri = uriB\<rparr>"

text \<open>A state with a running client for each of two workspace folders and one for a lone file.\<close>

definition state_AB :: state where
  "state_AB =
     initial_state
       \<lparr>fileClients := [Some (''file:///tmp/x.gr'', 2)],
        workspaceClients := [Some (''file:///ws/a'', 0), Some (''file:///ws/b'', 1)],
        clients :=
          [\<lparr>serverOptions = (''grain'', [''lsp'', []]),
            clientOptions = workspaceClientOptions folderA, clientState = Running\<rparr>,
           \<lparr>serverOptions = (''grain'', [''lsp'', []]),
            clientOptions = workspaceClientOptions folderB, clientState = Running\<rparr>,
           \<lparr>serverOptions = (''grain'', [''lsp'', []]),
            clientOptions = fileClientOptions uriX initial_state, clientState = Running\<rparr>],
        trace := [ClientStart 0, WorkspaceSet ''file:///ws/a'' 0,
                  ClientStart 1, WorkspaceSet ''file:///ws/b'' 1,
                  ClientStart 2, FileSet ''file:///tmp/x.gr'' 2]\<rparr>"

definition folders_AB_removed :: WorkspaceFoldersChangeEvent where
  "folders_AB_removed = \<lparr>added = [], removed = [folderA, folderB]\<rparr>"



definition docX :: TextDocument where
  "docX = \<lparr>doc_languageId = ''grain'', doc_uri = uriX\<rparr>"

definition uriSub :: Uri where
  "uriSub = \<lparr>scheme = ''file'', fsPath = ''/ws/a/sub'', toString = ''file:///ws/a/sub''\<rparr>"

definition folderSub :: WorkspaceFolder where
  "folderSub = \<lparr>uri = uriSub\<rparr>"

definition uriM :: Uri where
  "uriM = \<lparr>scheme = ''file'', fsPath = ''/ws/a/sub/m.gr'', toString = ''file:///ws/a/sub/m.gr''\<rparr>"

definition docM :: TextDocument where
  "docM = \<lparr>doc_languageId = ''grain'', doc_uri = uriM\<rparr>"

text \<open>
  A host with the folder \<^verbatim>\<open>/ws/a/sub\<close> nested in the folder \<^verbatim>\<open>/ws/a\<close>, and \<^verbatim>\<open>/ws/b\<close> beside
  them; it resolves a URI to the innermost folder that holds it.
\<close>

definition host_nested :: host where
  "host_nested =
     host_linux
       \<lparr>workspace_workspaceFolders := Some [folderSub, folderB, folderA],
        workspace_getWorkspaceFolder :=
          (\<lambda>u. if prefix ''file:///ws/a/sub/'' u \<or> u = ''file:///ws/a/sub'' then Some folderSub
               else if prefix ''file:///ws/a/'' u \<or> u = ''file:///ws/a'' then Some folderA
               else if prefix ''file:///ws/b/'' u \<or> u = ''file:///ws/b'' then Some folderB
               else None)\<rparr>"

definition cliPath_changed :: ConfigurationChangeEvent where
  "cliPath_changed = (\<lambda>section u. section = ''grain.cliPath'')"

definition uriP :: Uri where
  "uriP = \<lparr>scheme = ''file'', fsPath = ''/ws/a/p.gr'', toString = ''file:///ws/a/p.gr''\<rparr>"

definition uriQ :: Uri where
  "uriQ = \<lparr>scheme = ''file'', fsPath = ''/ws/a/q.gr'', toString = ''file:///ws/a/q.gr''\<rparr>"

definition docP :: TextDocument where
  "docP = \<lparr>doc_languageId = ''grain'', doc_uri = uriP\<rparr>"

definition docQ :: TextDocument where
  "docQ = \<lparr>doc_languageId = ''grain'', doc_uri = uriQ\<rparr>"

text \<open>The state after activation, before any document is opened.\<close>

definition activated :: system where
  "activated = \<lparr>ext = createStatusBarEntries initial_state, tasks = []\<rparr>"

text \<open>\<open>state_AB\<close> with the handlers of two documents of folder A and one of folder B.\<close>

definition system_AB :: system where
  "system_AB =
     \<lparr>ext = state_AB\<lparr>configHandlers :=
              [WorkspaceHandler folderA, WorkspaceHandler folderA, WorkspaceHandler folderB]\<rparr>,
      tasks = []\<rparr>"

text \<open>
  Two documents of folder A are opened one right after the other, before the first
  client's \<^verbatim>\<open>start()\<close> has resolved; then both starts resolve.
\<close>

definition two_opens :: "(host \<times> action) list" where
  "two_opens =
     [(host_nested, DidOpenTextDocument docP), (host_nested, DidOpenTextDocument docQ),
      (host_nested, Resume 0 True), (host_nested, Resume 1 True)]"

text \<open>
  A document of folder A is opened and its client starts; a lone file is opened, and while
  its client's \<^verbatim>\<open>start()\<close> is pending the extension is deactivated; the start resolves
  while \<^verbatim>\<open>deactivate\<close> awaits the stop of folder A's client; then that stop resolves.
\<close>

definition deactivate_during_start :: "(host \<times> action) list" where
  "deactivate_during_start =
     [(host_nested, DidOpenTextDocument docP), (host_nested, Resume 0 True),
      (host_nested, DidOpenTextDocument docX), (host_nested, Deactivate),
      (host_nested, Resume 1 True), (host_nested, Resume 2 True)]"

text \<open>
  \<open>state_AB\<close> with the handler of one document of folder A. After a change of
  \<^verbatim>\<open>grain.cliPath\<close> the handler stops the old client and starts a new one
  (\<open>restart_pending\<close>); while the new client's \<^verbatim>\<open>start()\<close> is pending, \<^verbatim>\<open>grain.cliFlags\<close> is
  set to \<^verbatim>\<open>--debug\<close> and the change is announced; then the start resolves and the handler
  ends.
\<close>

definition system_A :: system where
  "system_A = \<lparr>ext = state_AB\<lparr>configHandlers := [WorkspaceHandler folderA]\<rparr>, tasks = []\<rparr>"

definition cliFlags_changed :: ConfigurationChangeEvent where
  "cliFlags_changed = (\<lambda>section u. section = ''grain.cliFlags'')"

definition flags_and_path_changed :: ConfigurationChangeEvent where
  "flags_and_path_changed = (\<lambda>section u. section = ''grain.cliFlags'' \<or> section = ''grain.cliPath'')"

definition host_debug :: host where
  "host_debug = host_linux\<lparr>config_cliFlags := (\<lambda>u. Some ''--debug'')\<rparr>"

definition restart_pending :: "(host \<times> action) list" where
  "restart_pending =
     [(host_linux, DidChangeConfiguration cliPath_changed), (host_linux, Resume 0 True),
      (host_linux, Resume 0 True)]"

definition flags_change_dropped :: "(host \<times> action) list" where
  "flags_change_dropped =
     restart_pending @
     [(host_debug, DidChangeConfiguration cliFlags_changed), (host_debug, Resume 0 True),
      (host_debug, Resume 0 True)]"

section \<open>Locating the binary\<close>

lemma findGrain_loop_none:
  "(\<forall>bin\<in>set bins. w bin = None) \<Longrightarrow>
   findGrain_loop w bins = Inl (Error ''Unable to locate any Grain binary. Did you install it?'')"
  by (induction bins) auto

lemma findGrain_loop_first:
  "i < length bins \<Longrightarrow> w (bins ! i) = Some p \<Longrightarrow> (\<forall>j<i. w (bins ! j) = None) \<Longrightarrow>
   findGrain_loop w bins = Inr p"
proof (induction bins arbitrary: i)
  case Nil
  then show ?case by simp
next
  case (Cons b bins)
  show ?case
  proof (cases i)
    case 0
    with Cons.prems show ?thesis by simp
  next
    case (Suc k)
    with Cons.prems have "w b = None" by auto
    moreover have "findGrain_loop w bins = Inr p"
      using Cons.prems Suc by (intro Cons.IH [of k]) auto
    ultimately show ?thesis by simp
  qed
qed

text \<open>
  Claim C6. \<^verbatim>\<open>findGrain\<close> is an ordinary (not \<^verbatim>\<open>async\<close>) function over the four names
  \<^verbatim>\<open>grain\<close>, \<^verbatim>\<open>grain-mac-x64\<close>, \<^verbatim>\<open>grain-linux-x64\<close>, \<^verbatim>\<open>grain-win-x64\<close>. When none of them is
  located it throws the error "Unable to locate any Grain binary" and returns nothing in its
  place; when some name is located it returns the path of the first located name in that
  order.
\<close>

theorem findGrain_first_located:
  "grainBinaries = [''grain'', ''grain-mac-x64'', ''grain-linux-x64'', ''grain-win-x64''] \<and>
   ((\<forall>bin\<in>set grainBinaries. which_sync h bin = None) \<longrightarrow>
      findGrain h = Inl (Error ''Unable to locate any Grain binary. Did you install it?'')) \<and>
   (\<forall>i p. i < length grainBinaries \<and> which_sync h (grainBinaries ! i) = Some p \<and>
          (\<forall>j<i. which_sync h (grainBinaries ! j) = None) \<longrightarrow> findGrain h = Inr p)"
proof (intro conjI allI impI)
  show "grainBinaries = [''grain'', ''grain-mac-x64'', ''grain-linux-x64'', ''grain-win-x64'']"
    by (simp add: grainBinaries_def)
next
  assume "\<forall>bin\<in>set grainBinaries. which_sync h bin = None"
  then show "findGrain h = Inl (Error ''Unable to locate any Grain binary. Did you install it?'')"
    unfolding findGrain_def by (rule findGrain_loop_none)
next
  fix i p
  assume "i < length grainBinaries \<and> which_sync h (grainBinaries ! i) = Some p \<and>
          (\<forall>j<i. which_sync h (grainBinaries ! j) = None)"
  then show "findGrain h = Inr p"
    unfolding findGrain_def by (blast intro: findGrain_loop_first)
qed

theorem findGrain_first_located_witness:
  "findGrain host_none = Inl (Error ''Unable to locate any Grain binary. Did you install it?'') \<and>
   findGrain host_linux = Inr ''/usr/local/bin/grain-linux-x64''"
proof -
  have none: "\<forall>bin\<in>set grainBinaries. which_sync host_none bin = None"
    by (simp add: host_none_def)
  have found: "2 < length grainBinaries \<and>
      which_sync host_linux (grainBinaries ! 2) = Some ''/usr/local/bin/grain-linux-x64'' \<and>
      (\<forall>j<2. which_sync host_linux (grainBinaries ! j) = None)"
    by (simp add: host_linux_def host_none_def grainBinaries_def less_Suc_eq numeral_2_eq_2)
  from findGrain_first_located [of host_none] none
  have a: "findGrain host_none = Inl (Error ''Unable to locate any Grain binary. Did you install it?'')"
    by blast
  from findGrain_first_located [of host_linux] found
  have b: "findGrain host_linux = Inr ''/usr/local/bin/grain-linux-x64''"
    by blast
  from a b show ?thesis by simp
qed

section \<open>Maps\<close>

lemma js_get_set: "js_get (js_set key x m) k = (if k = key then Some x else js_get m k)"
  by (induction key x m rule: js_set.induct) auto

lemma js_get_delete: "js_get (js_delete key m) k = (if k = key then None else js_get m k)"
proof (induction m)
  case Nil
  show ?case by (simp add: js_delete_def)
next
  case (Cons slot m)
  then show ?case by (cases slot) (auto simp: js_delete_def)
qed

lemma js_delete_absent: "js_get m key = None \<Longrightarrow> js_delete key m = m"
proof (induction m)
  case Nil
  show ?case by (simp add: js_delete_def)
next
  case (Cons slot m)
  then show ?case by (cases slot) (auto simp: js_delete_def split: if_splits)
qed

section \<open>Tasks run alone\<close>

lemma set_clientState_fields [simp]:
  "fileClients (set_clientState c st s) = fileClients s"
  "workspaceClients (set_clientState c st s) = workspaceClients s"
  "activeMutex (set_clientState c st s) = activeMutex s"
  "workspaceFolders (set_clientState c st s) = workspaceFolders s"
  "grainStatusBarItem (set_clientState c st s) = grainStatusBarItem s"
  "configHandlers (set_clientState c st s) = configHandlers s"
  "trace (set_clientState c st s) = trace s"
  "length (clients (set_clientState c st s)) = length (clients s)"
  by (simp_all add: set_clientState_def)

lemma client_stop_fields [simp]:
  "fileClients (client_stop c s) = fileClients s"
  "workspaceClients (client_stop c s) = workspaceClients s"
  "activeMutex (client_stop c s) = activeMutex s"
  "workspaceFolders (client_stop c s) = workspaceFolders s"
  "grainStatusBarItem (client_stop c s) = grainStatusBarItem s"
  "configHandlers (client_stop c s) = configHandlers s"
  "trace (client_stop c s) = trace s @ [ClientStop c]"
  "length (clients (client_stop c s)) = length (clients s)"
  by (simp_all add: client_stop_def)

lemma client_start_fields [simp]:
  "fst (client_start obj s) = length (clients s)"
  "fileClients (snd (client_start obj s)) = fileClients s"
  "workspaceClients (snd (client_start obj s)) = workspaceClients s"
  "activeMutex (snd (client_start obj s)) = activeMutex s"
  "workspaceFolders (snd (client_start obj s)) = workspaceFolders s"
  "grainStatusBarItem (snd (client_start obj s)) = grainStatusBarItem s"
  "configHandlers (snd (client_start obj s)) = configHandlers s"
  "trace (snd (client_start obj s)) = trace s @ [ClientStart (length (clients s))]"
  "clients (snd (client_start obj s)) = clients s @ [obj\<lparr>clientState := Starting\<rparr>]"
  by (simp_all add: client_start_def Let_def)

lemmas call_defs =
  addFileClient_def addFileClient_resume_def removeFileClient_def removeFileClient_resume_def
  addWorkspaceClient_def addWorkspaceClient_resume_def removeWorkspaceClient_def
  removeWorkspaceClient_resume_def startFileClient_def startWorkspaceClient_def

lemma exec_no_release:
  "exec h ok f s = (Inr fs', s') \<Longrightarrow> filter is_Release fs' = []"
  by (cases f)
     (auto simp: call_defs deactivate_files_def deactivate_workspaces_def Let_def
       split: if_splits sum.splits option.splits prod.splits)

text \<open>
  Frames in sequence: the second part runs from where the first ends; when the first
  throws, only the \<open>Release\<close> frames of the second still run.
\<close>

lemma run_frames_append:
  "filter is_Release fs1 = [] \<Longrightarrow>
   run_frames h ora (fs1 @ fs2) s =
     (case run_frames h ora fs1 s of
        (None, s') \<Rightarrow> run_frames h ora fs2 s'
      | (Some e, s') \<Rightarrow>
          (if filter is_Release fs2 = [] then (Some e, s')
           else run_frames h ora (filter is_Release fs2) (s'\<lparr>trace := trace s' @ [Rethrown e]\<rparr>)))"
proof (induction h ora fs1 s rule: run_frames.induct)
  case (1 h ora s)
  then show ?case by simp
next
  case (2 h ora f fs s)
  obtain r s' where ex: "exec h (ora (length (trace s))) f s = (r, s')"
    by (cases "exec h (ora (length (trace s))) f s")
  from "2.prems" have nf: "\<not> is_Release f" and nfs: "filter is_Release fs = []"
    by (auto split: if_splits)
  show ?case
  proof (cases r)
    case (Inl e)
    with ex nfs show ?thesis by (simp add: advance_def)
  next
    case (Inr fs')
    with ex have adv: "advance h (ora (length (trace s))) f fs s = ((None, fs' @ fs), s')"
      by (simp add: advance_def)
    from ex Inr have "filter is_Release fs' = []" by (auto dest: exec_no_release)
    with nfs have "filter is_Release (fs' @ fs) = []" by simp
    from "2.IH" [OF adv [symmetric] refl refl this] ex Inr
    show ?thesis by (simp add: advance_def)
  qed
qed

lemma run_RemoveWorkspaceClient:
  "run_frames h ora [RemoveWorkspaceClient folder] s =
     (case js_get (workspaceClients s) (toString (uri folder)) of
        None \<Rightarrow> (None, s)
      | Some c \<Rightarrow>
          (let s1 = client_stop c s in
           if ora (length (trace s1)) then
             (None, (set_clientState c Stopped s1)
                \<lparr>workspaceClients := js_delete (toString (uri folder)) (workspaceClients s),
                 trace := trace s1 @ [WorkspaceDelete (toString (uri folder))]\<rparr>)
           else (Some ClientRejected, s1)))"
  by (simp add: advance_def removeWorkspaceClient_def removeWorkspaceClient_resume_def Let_def
           split: option.splits)

lemma run_AddWorkspaceClient:
  "run_frames h ora [AddWorkspaceClient folder] s =
     (if js_get (workspaceClients s) (toString (uri folder)) = None then
        (case startWorkspaceClient h folder s of
           Inl e \<Rightarrow> (Some e, s)
         | Inr (client, s1) \<Rightarrow>
             if ora (length (trace s1)) then
               (None, (set_clientState client Running s1)
                  \<lparr>workspaceClients :=
                     js_set (toString (uri folder)) client (workspaceClients s1),
                   trace := trace s1 @ [WorkspaceSet (toString (uri folder)) client]\<rparr>)
             else (Some ClientRejected, set_clientState client StartFailed s1))
      else (None, s))"
  by (simp add: advance_def addWorkspaceClient_def addWorkspaceClient_resume_def
        Let_def split: sum.splits prod.splits)

lemma run_AddFileClient:
  "run_frames h ora [AddFileClient u] s =
     (if js_get (fileClients s) (toString u) = None then
        (case startFileClient h u s of
           Inl e \<Rightarrow> (Some e, s)
         | Inr (client, s1) \<Rightarrow>
             if ora (length (trace s1)) then
               (None, (set_clientState client Running s1)
                  \<lparr>fileClients := js_set (toString u) client (fileClients s1),
                   trace := trace s1 @ [FileSet (toString u) client]\<rparr>)
             else (Some ClientRejected, set_clientState client StartFailed s1))
      else (None, s))"
  by (simp add: advance_def addFileClient_def addFileClient_resume_def
        Let_def split: sum.splits prod.splits)

lemma run_RemoveFileClient:
  "run_frames h ora [RemoveFileClient u] s =
     (case js_get (fileClients s) (toString u) of
        None \<Rightarrow> (None, s)
      | Some c \<Rightarrow>
          (let s1 = client_stop c s in
           if ora (length (trace s1)) then
             (None, (set_clientState c Stopped s1)
                \<lparr>fileClients := js_delete (toString u) (fileClients s),
                 trace := trace s1 @ [FileDelete (toString u)]\<rparr>)
           else (Some ClientRejected, s1)))"
  by (simp add: advance_def removeFileClient_def removeFileClient_resume_def
        Let_def split: option.splits)

lemma run_Release:
  "run_frames h ora [Release key] s = (None, s\<lparr>activeMutex := activeMutex s - {key}\<rparr>)"
  by (simp add: advance_def)

lemma run_Subscribe:
  "run_frames h ora [Subscribe cb] s = (None, s\<lparr>configHandlers := configHandlers s @ [cb]\<rparr>)"
  by (simp add: advance_def)

lemma run_Raise: "run_frames h ora [Raise e] s = (Some e, s)"
  by (simp add: advance_def)

declare run_frames.simps [simp del]

lemma run_frames_Cons:
  "\<not> is_Release f \<Longrightarrow>
   run_frames h ora (f # fs) s =
     (case run_frames h ora [f] s of
        (None, s') \<Rightarrow> run_frames h ora fs s'
      | (Some e, s') \<Rightarrow>
          (if filter is_Release fs = [] then (Some e, s')
           else run_frames h ora (filter is_Release fs) (s'\<lparr>trace := trace s' @ [Rethrown e]\<rparr>)))"
  using run_frames_append [of "[f]" h ora fs s] by simp

lemma no_release_RemoveWorkspaceClient [simp]:
  "filter is_Release (map RemoveWorkspaceClient folders) = []"
  by (induction folders) simp_all

lemmas eval_defs =
  run_frames.simps advance_def call_defs client_stop_def client_start_def set_clientState_def
  Let_def initial_state_def state_AB_def deactivate_def deactivate_files_def
  deactivate_workspaces_def js_delete_def didChangeWorkspaceFolders_def
  uriA_def uriB_def uriX_def folderA_def folderB_def

lemmas system_defs =
  spawn_def settle_def configHandler_def mutex_def configSections_def cliPath_changed_def
  system_AB_def didOpenTextDocument_def getOuterMostWorkspaceFolder_def
  sortWorkspaceFolders_def dirpathFromUri_def suffix_def languageId_def
  activated_def createStatusBarEntries_def two_opens_def docP_def docQ_def uriP_def uriQ_def
  uriSub_def folderSub_def workspaceClientOptions_def globFromUri_def

lemma getLsp_nested:
  "getLspCommand host_nested u = Inr (Some (''/usr/local/bin/grain-linux-x64'', [''lsp'', []]))"
  by (simp add: getLspCommand_def host_nested_def host_linux_def host_none_def findGrain_def
        grainBinaries_def lowercase_exe_def suffix_def Let_def)

lemma host_nested_sel:
  "workspace_workspaceFolders host_nested = Some [folderSub, folderB, folderA]"
  "workspace_getWorkspaceFolder host_nested ''file:///ws/a/p.gr'' = Some folderA"
  "workspace_getWorkspaceFolder host_nested ''file:///ws/a/q.gr'' = Some folderA"
  "workspace_getWorkspaceFolder host_nested ''file:///ws/a/'' = Some folderA"
  "workspace_getWorkspaceFolder host_nested ''file:///tmp/x.gr'' = None"
  by (simp_all add: host_nested_def)

section \<open>Deactivation\<close>

text \<open>
  Claim C2 does not hold of the code. \<^verbatim>\<open>deactivate\<close> stops the clients it finds in the two
  maps, and a client is put into its map only after \<^verbatim>\<open>await client.start()\<close>. In the run
  \<open>deactivate_during_start\<close> the client of the lone file \<^verbatim>\<open>file:///tmp/x.gr\<close> (client 1) is
  starting when \<^verbatim>\<open>deactivate\<close> is called: the loop over \<^verbatim>\<open>fileClients\<close> finds no entry, the
  loop over \<^verbatim>\<open>workspaceClients\<close> calls \<^verbatim>\<open>stop()\<close> on folder A's client (client 0) and
  awaits it; meanwhile the start resolves and client 1 is stored in \<^verbatim>\<open>fileClients\<close>; then
  the stop resolves and \<^verbatim>\<open>deactivate\<close> is done (its task, the third, has no frame left and
  no promise was rejected). Client 1 is stored in \<^verbatim>\<open>fileClients\<close> and running, and
  \<^verbatim>\<open>stop()\<close> was never called on it.
\<close>

theorem deactivate_misses_starting_client:
  "tasks (run deactivate_during_start activated) ! 2 = [] \<and>
   trace (ext (run deactivate_during_start activated)) =
     [ClientStart 0, WorkspaceSet ''file:///ws/a'' 0, ClientStart 1, ClientStop 0,
      FileSet ''file:///tmp/x.gr'' 1] \<and>
   fileClients (ext (run deactivate_during_start activated)) = [Some (''file:///tmp/x.gr'', 1)] \<and>
   workspaceClients (ext (run deactivate_during_start activated)) = [Some (''file:///ws/a'', 0)] \<and>
   map clientState (clients (ext (run deactivate_during_start activated))) = [Stopped, Running] \<and>
   ClientStop 1 \<notin> set (trace (ext (run deactivate_during_start activated)))"
  by (simp add: deactivate_during_start_def system_defs eval_defs getLsp_nested host_nested_sel
        docX_def fileClientOptions_def)

section \<open>Workspace folders removed\<close>

lemma js_get_fold_delete:
  "js_get (fold (\<lambda>f. js_delete (toString (uri f))) fs m) k =
     (if k \<in> (\<lambda>f. toString (uri f)) ` set fs then None else js_get m k)"
  by (induction fs arbitrary: m) (auto simp: js_get_delete)

lemma remove_all:
  "run_frames h ora (map RemoveWorkspaceClient folders) s = (r, s') \<Longrightarrow>
   fileClients s' = fileClients s \<and> length (clients s') = length (clients s) \<and>
   (\<exists>pre post tr. folders = pre @ post \<and> trace s' = trace s @ tr \<and>
      workspaceClients s' = fold (\<lambda>f. js_delete (toString (uri f))) pre (workspaceClients s) \<and>
      (\<forall>c. ClientStart c \<notin> set tr) \<and>
      (\<forall>f\<in>set pre. \<forall>c. js_get (workspaceClients s) (toString (uri f)) = Some c \<longrightarrow>
           ClientStop c \<in> set tr) \<and>
      (\<forall>c. ClientStop c \<in> set tr \<longrightarrow>
           (\<exists>f\<in>set (pre @ take 1 post). js_get (workspaceClients s) (toString (uri f)) = Some c)) \<and>
      (r = None \<longrightarrow> post = []) \<and>
      (\<forall>e. r = Some e \<longrightarrow> e = ClientRejected \<and> post \<noteq> [] \<and> tr \<noteq> [] \<and>
           toString (uri (hd post)) \<notin> (\<lambda>f. toString (uri f)) ` set pre \<and>
           (\<exists>c. js_get (workspaceClients s) (toString (uri (hd post))) = Some c \<and>
                last tr = ClientStop c)))"
proof (induction folders arbitrary: s)
  case Nil
  then have "s' = s" "r = None" by (simp_all add: run_frames.simps(1))
  then show ?case by simp
next
  case (Cons f folders)
  let ?k = "toString (uri f)"
  let ?key = "\<lambda>f. toString (uri f)"
  have split: "run_frames h ora (map RemoveWorkspaceClient (f # folders)) s =
      (case run_frames h ora [RemoveWorkspaceClient f] s of
         (None, s') \<Rightarrow> run_frames h ora (map RemoveWorkspaceClient folders) s'
       | (Some e, s') \<Rightarrow> (Some e, s'))"
    using run_frames_Cons [of "RemoveWorkspaceClient f" h ora "map RemoveWorkspaceClient folders" s]
    by (simp split: prod.splits option.splits)
  show ?case
  proof (cases "js_get (workspaceClients s) ?k")
    case None
    with Cons.prems have "run_frames h ora (map RemoveWorkspaceClient folders) s = (r, s')"
      unfolding split by (simp add: run_RemoveWorkspaceClient)
    from Cons.IH [OF this] obtain pre post tr where
      a: "fileClients s' = fileClients s" "length (clients s') = length (clients s)" and
      sp: "folders = pre @ post" and tr: "trace s' = trace s @ tr" and
      reg: "workspaceClients s' = fold (\<lambda>f. js_delete (?key f)) pre (workspaceClients s)" and
      ns: "\<forall>c. ClientStart c \<notin> set tr" and
      st: "\<forall>f\<in>set pre. \<forall>c. js_get (workspaceClients s) (?key f) = Some c \<longrightarrow>
             ClientStop c \<in> set tr" and
      only: "\<forall>c. ClientStop c \<in> set tr \<longrightarrow>
             (\<exists>f\<in>set (pre @ take 1 post). js_get (workspaceClients s) (?key f) = Some c)" and
      ok: "r = None \<longrightarrow> post = []" and
      rej: "\<forall>e. r = Some e \<longrightarrow> e = ClientRejected \<and> post \<noteq> [] \<and> tr \<noteq> [] \<and>
             ?key (hd post) \<notin> ?key ` set pre \<and>
             (\<exists>c. js_get (workspaceClients s) (?key (hd post)) = Some c \<and> last tr = ClientStop c)"
      by blast
    have reg': "workspaceClients s' = fold (\<lambda>f. js_delete (?key f)) (f # pre) (workspaceClients s)"
      using reg None by (simp add: js_delete_absent)
    have st': "\<forall>g\<in>set (f # pre). \<forall>c. js_get (workspaceClients s) (?key g) = Some c \<longrightarrow>
             ClientStop c \<in> set tr"
      using st None by auto
    have only': "\<forall>c. ClientStop c \<in> set tr \<longrightarrow>
             (\<exists>g\<in>set ((f # pre) @ take 1 post). js_get (workspaceClients s) (?key g) = Some c)"
      using only by auto
    have rej': "\<forall>e. r = Some e \<longrightarrow> e = ClientRejected \<and> post \<noteq> [] \<and> tr \<noteq> [] \<and>
             ?key (hd post) \<notin> ?key ` set (f # pre) \<and>
             (\<exists>c. js_get (workspaceClients s) (?key (hd post)) = Some c \<and> last tr = ClientStop c)"
      using rej None by auto
    from sp have sp': "f # folders = (f # pre) @ post" by simp
    from a sp' tr reg' ns st' only' ok rej' show ?thesis by blast
  next
    case (Some c)
    let ?s1 = "client_stop c s"
    show ?thesis
    proof (cases "ora (length (trace ?s1))")
      case False
      with Some Cons.prems have r: "r = Some ClientRejected" and s': "s' = ?s1"
        unfolding split by (auto simp: run_RemoveWorkspaceClient Let_def)
      have "f # folders = [] @ (f # folders) \<and> trace s' = trace s @ [ClientStop c] \<and>
        workspaceClients s' = fold (\<lambda>f. js_delete (?key f)) [] (workspaceClients s) \<and>
        (\<forall>c'. ClientStart c' \<notin> set [ClientStop c]) \<and>
        (\<forall>g\<in>set []. \<forall>c'. js_get (workspaceClients s) (?key g) = Some c' \<longrightarrow>
           ClientStop c' \<in> set [ClientStop c]) \<and>
        (\<forall>c'. ClientStop c' \<in> set [ClientStop c] \<longrightarrow>
           (\<exists>g\<in>set ([] @ take 1 (f # folders)). js_get (workspaceClients s) (?key g) = Some c')) \<and>
        (r = None \<longrightarrow> f # folders = []) \<and>
        (\<forall>e. r = Some e \<longrightarrow> e = ClientRejected \<and> f # folders \<noteq> [] \<and> [ClientStop c] \<noteq> [] \<and>
           ?key (hd (f # folders)) \<notin> ?key ` set [] \<and>
           (\<exists>c'. js_get (workspaceClients s) (?key (hd (f # folders))) = Some c' \<and>
                last [ClientStop c] = ClientStop c'))"
        using r s' Some by simp
      moreover have "fileClients s' = fileClients s" "length (clients s') = length (clients s)"
        using s' by simp_all
      ultimately show ?thesis by blast
    next
      case True
      let ?s2 = "(set_clientState c Stopped ?s1)
                \<lparr>workspaceClients := js_delete ?k (workspaceClients s),
                 trace := trace ?s1 @ [WorkspaceDelete ?k]\<rparr>"
      let ?m2 = "js_delete ?k (workspaceClients s)"
      let ?hd = "[ClientStop c, WorkspaceDelete ?k]"
      from True Some Cons.prems
      have "run_frames h ora (map RemoveWorkspaceClient folders) ?s2 = (r, s')"
        unfolding split by (simp add: run_RemoveWorkspaceClient Let_def)
      from Cons.IH [OF this] obtain pre post tr where
        a: "fileClients s' = fileClients s" "length (clients s') = length (clients s)" and
        sp: "folders = pre @ post" and tr: "trace s' = trace s @ ?hd @ tr" and
        reg: "workspaceClients s' = fold (\<lambda>f. js_delete (?key f)) pre ?m2" and
        ns: "\<forall>c. ClientStart c \<notin> set tr" and
        st: "\<forall>f\<in>set pre. \<forall>c. js_get ?m2 (?key f) = Some c \<longrightarrow> ClientStop c \<in> set tr" and
        only: "\<forall>c. ClientStop c \<in> set tr \<longrightarrow>
               (\<exists>f\<in>set (pre @ take 1 post). js_get ?m2 (?key f) = Some c)" and
        ok: "r = None \<longrightarrow> post = []" and
        rej: "\<forall>e. r = Some e \<longrightarrow> e = ClientRejected \<and> post \<noteq> [] \<and> tr \<noteq> [] \<and>
               ?key (hd post) \<notin> ?key ` set pre \<and>
               (\<exists>c. js_get ?m2 (?key (hd post)) = Some c \<and> last tr = ClientStop c)"
        by auto
      have del: "\<And>k. js_get ?m2 k = (if k = ?k then None else js_get (workspaceClients s) k)"
        by (simp add: js_get_delete)
      have reg': "workspaceClients s' = fold (\<lambda>f. js_delete (?key f)) (f # pre) (workspaceClients s)"
        using reg by simp
      have ns': "\<forall>c'. ClientStart c' \<notin> set (?hd @ tr)" using ns by simp
      have st': "\<forall>g\<in>set (f # pre). \<forall>c'. js_get (workspaceClients s) (?key g) = Some c' \<longrightarrow>
             ClientStop c' \<in> set (?hd @ tr)"
      proof (intro ballI allI impI)
        fix g c' assume g: "g \<in> set (f # pre)"
          and r: "js_get (workspaceClients s) (?key g) = Some c'"
        show "ClientStop c' \<in> set (?hd @ tr)"
        proof (cases "?key g = ?k")
          case True
          with r Some show ?thesis by simp
        next
          case False
          with g have "g \<in> set pre" by auto
          moreover from False r del have "js_get ?m2 (?key g) = Some c'" by simp
          ultimately show ?thesis using st by auto
        qed
      qed
      have only': "\<forall>c'. ClientStop c' \<in> set (?hd @ tr) \<longrightarrow>
             (\<exists>g\<in>set ((f # pre) @ take 1 post). js_get (workspaceClients s) (?key g) = Some c')"
      proof (intro allI impI)
        fix c' assume "ClientStop c' \<in> set (?hd @ tr)"
        then consider "c' = c" | "ClientStop c' \<in> set tr" by auto
        then show "\<exists>g\<in>set ((f # pre) @ take 1 post). js_get (workspaceClients s) (?key g) = Some c'"
        proof cases
          case 1
          with Some show ?thesis by auto
        next
          case 2
          with only obtain g where "g \<in> set (pre @ take 1 post)" "js_get ?m2 (?key g) = Some c'"
            by blast
          moreover from this del have "js_get (workspaceClients s) (?key g) = Some c'"
            by (auto split: if_splits)
          ultimately show ?thesis by auto
        qed
      qed
      have rej': "\<forall>e. r = Some e \<longrightarrow> e = ClientRejected \<and> post \<noteq> [] \<and> ?hd @ tr \<noteq> [] \<and>
             ?key (hd post) \<notin> ?key ` set (f # pre) \<and>
             (\<exists>c'. js_get (workspaceClients s) (?key (hd post)) = Some c' \<and>
                   last (?hd @ tr) = ClientStop c')"
      proof (intro allI impI)
        fix e assume "r = Some e"
        with rej obtain c' where e: "e = ClientRejected" "post \<noteq> []" "tr \<noteq> []"
          "?key (hd post) \<notin> ?key ` set pre" "js_get ?m2 (?key (hd post)) = Some c'"
          "last tr = ClientStop c'" by blast
        from e(5) del have "?key (hd post) \<noteq> ?k" "js_get (workspaceClients s) (?key (hd post)) = Some c'"
          by (auto split: if_splits)
        with e show "e = ClientRejected \<and> post \<noteq> [] \<and> ?hd @ tr \<noteq> [] \<and>
             ?key (hd post) \<notin> ?key ` set (f # pre) \<and>
             (\<exists>c'. js_get (workspaceClients s) (?key (hd post)) = Some c' \<and>
                   last (?hd @ tr) = ClientStop c')"
          by auto
      qed
      from sp have sp': "f # folders = (f # pre) @ post" by simp
      from a sp' tr reg' ns' st' only' ok rej' show ?thesis by blast
    qed
  qed
qed

lemma set_clientState_other:
  "c' \<noteq> c \<Longrightarrow> clients (set_clientState c st s) ! c' = clients s ! c'"
  by (simp add: set_clientState_def)

lemma remove_all_clients:
  "run_frames h ora (map RemoveWorkspaceClient folders) s = (r, s') \<Longrightarrow>
   ClientStop c \<notin> set (drop (length (trace s)) (trace s')) \<Longrightarrow>
   clients s' ! c = clients s ! c"
proof (induction folders arbitrary: s)
  case Nil
  then have "s' = s" by (simp add: run_frames.simps(1))
  then show ?case by simp
next
  case (Cons f folders)
  let ?k = "toString (uri f)"
  have split: "run_frames h ora (map RemoveWorkspaceClient (f # folders)) s =
      (case run_frames h ora [RemoveWorkspaceClient f] s of
         (None, s') \<Rightarrow> run_frames h ora (map RemoveWorkspaceClient folders) s'
       | (Some e, s') \<Rightarrow> (Some e, s'))"
    using run_frames_Cons [of "RemoveWorkspaceClient f" h ora "map RemoveWorkspaceClient folders" s]
    by (simp split: prod.splits option.splits)
  show ?case
  proof (cases "js_get (workspaceClients s) ?k")
    case None
    with Cons.prems(1) have "run_frames h ora (map RemoveWorkspaceClient folders) s = (r, s')"
      unfolding split by (simp add: run_RemoveWorkspaceClient)
    from Cons.IH [OF this Cons.prems(2)] show ?thesis .
  next
    case (Some c0)
    let ?s1 = "client_stop c0 s"
    show ?thesis
    proof (cases "ora (length (trace ?s1))")
      case False
      with Some Cons.prems(1) have s': "s' = ?s1"
        unfolding split by (auto simp: run_RemoveWorkspaceClient Let_def)
      with Cons.prems(2) have "c \<noteq> c0" by auto
      then show ?thesis unfolding s' by (simp add: client_stop_def set_clientState_other)
    next
      case True
      let ?s2 = "(set_clientState c0 Stopped ?s1)
                \<lparr>workspaceClients := js_delete ?k (workspaceClients s),
                 trace := trace ?s1 @ [WorkspaceDelete ?k]\<rparr>"
      from True Some Cons.prems(1)
      have run: "run_frames h ora (map RemoveWorkspaceClient folders) ?s2 = (r, s')"
        unfolding split by (simp add: run_RemoveWorkspaceClient Let_def)
      from remove_all [OF run] obtain tr where
        tr: "trace s' = trace s @ [ClientStop c0, WorkspaceDelete ?k] @ tr" by auto
      with Cons.prems(2) have ne: "c \<noteq> c0" and "ClientStop c \<notin> set tr" by auto
      with tr have "ClientStop c \<notin> set (drop (length (trace ?s2)) (trace s'))" by simp
      from Cons.IH [OF run this] ne show ?thesis
        by (simp add: client_stop_def set_clientState_other)
    qed
  qed
qed

text \<open>
  Claim C7, as stated, fails where a \<^verbatim>\<open>client.stop()\<close> rejects: folders A and B are removed,
  the stop of A's client rejects, the handler's promise is rejected there, A's client is
  still registered, and B's client is neither stopped nor taken out of the registry.
\<close>

theorem didChangeWorkspaceFolders_stop_rejected:
  "fst (run_frames host_none (\<lambda>n. False)
         (fst (didChangeWorkspaceFolders folders_AB_removed state_AB))
         (snd (didChangeWorkspaceFolders folders_AB_removed state_AB))) = Some ClientRejected \<and>
   removed folders_AB_removed = [folderA, folderB] \<and>
   js_get (workspaceClients state_AB) (toString (uri folderA)) = Some 0 \<and>
   js_get (workspaceClients state_AB) (toString (uri folderB)) = Some 1 \<and>
   js_get (workspaceClients (snd (run_frames host_none (\<lambda>n. False)
         (fst (didChangeWorkspaceFolders folders_AB_removed state_AB))
         (snd (didChangeWorkspaceFolders folders_AB_removed state_AB)))))
      (toString (uri folderA)) = Some 0 \<and>
   js_get (workspaceClients (snd (run_frames host_none (\<lambda>n. False)
         (fst (didChangeWorkspaceFolders folders_AB_removed state_AB))
         (snd (didChangeWorkspaceFolders folders_AB_removed state_AB)))))
      (toString (uri folderB)) = Some 1 \<and>
   trace (snd (run_frames host_none (\<lambda>n. False)
         (fst (didChangeWorkspaceFolders folders_AB_removed state_AB))
         (snd (didChangeWorkspaceFolders folders_AB_removed state_AB)))) =
     trace state_AB @ [ClientStop 0]"
  by (simp add: eval_defs folders_AB_removed_def)

text \<open>
  Claim C7, amended. For every workspace-folders-change event, \<^verbatim>\<open>didChangeWorkspaceFolders\<close>,
  run to its end with no other handler in between, starts and constructs no client, leaves
  \<^verbatim>\<open>fileClients\<close> as it is, leaves the entry of every key that is not a removed folder's as
  it is, and leaves every client on which it did not call \<^verbatim>\<open>stop()\<close> as it is. It goes
  through the removed folders in order: the list is a part \<open>pre\<close> that it has dealt with,
  followed by a part \<open>post\<close>. The registry at the end is the registry at the beginning with
  the entries of the folders of \<open>pre\<close> deleted; each of these folders has no entry left and
  the client it had has been stopped. \<^verbatim>\<open>stop()\<close> has been called only on clients that
  folders of \<open>pre\<close> or the first folder of \<open>post\<close> had. When the promise resolves, \<open>post\<close>
  is empty: every removed folder has been dealt with. Otherwise the promise is rejected
  because the \<^verbatim>\<open>stop()\<close> of the client of the first folder of \<open>post\<close> rejected: that call
  is the last thing done, that client is still registered, and the folders after it have
  not been visited.
\<close>

theorem didChangeWorkspaceFolders_frame:
  assumes "run_frames h ora (fst (didChangeWorkspaceFolders ev s))
             (snd (didChangeWorkspaceFolders ev s)) = (r, s')"
  shows "fileClients s' = fileClients s \<and> length (clients s') = length (clients s) \<and>
   (\<forall>c. ClientStart c \<notin> set (drop (length (trace s)) (trace s'))) \<and>
   (\<forall>k. k \<notin> (\<lambda>f. toString (uri f)) ` set (removed ev) \<longrightarrow>
        js_get (workspaceClients s') k = js_get (workspaceClients s) k) \<and>
   (\<forall>c. ClientStop c \<notin> set (drop (length (trace s)) (trace s')) \<longrightarrow>
        clients s' ! c = clients s ! c) \<and>
   (\<exists>pre post. removed ev = pre @ post \<and>
      workspaceClients s' = fold (\<lambda>f. js_delete (toString (uri f))) pre (workspaceClients s) \<and>
      (\<forall>f\<in>set pre. js_get (workspaceClients s') (toString (uri f)) = None \<and>
         (\<forall>c. js_get (workspaceClients s) (toString (uri f)) = Some c \<longrightarrow>
              ClientStop c \<in> set (drop (length (trace s)) (trace s')))) \<and>
      (\<forall>c. ClientStop c \<in> set (drop (length (trace s)) (trace s')) \<longrightarrow>
           (\<exists>f\<in>set (pre @ take 1 post).
              js_get (workspaceClients s) (toString (uri f)) = Some c)) \<and>
      (r = None \<longrightarrow> post = []) \<and>
      (\<forall>e. r = Some e \<longrightarrow> e = ClientRejected \<and> post \<noteq> [] \<and>
           (\<exists>c. js_get (workspaceClients s) (toString (uri (hd post))) = Some c \<and>
                js_get (workspaceClients s') (toString (uri (hd post))) = Some c \<and>
                drop (length (trace s)) (trace s') \<noteq> [] \<and>
                last (drop (length (trace s)) (trace s')) = ClientStop c)))"
proof -
  let ?s0 = "s\<lparr>workspaceFolders := []\<rparr>"
  let ?key = "\<lambda>f. toString (uri f)"
  let ?m = "workspaceClients s"
  from assms have run: "run_frames h ora (map RemoveWorkspaceClient (removed ev)) ?s0 = (r, s')"
    by (simp add: didChangeWorkspaceFolders_def)
  from remove_all [OF run] obtain pre post tr where
    a: "fileClients s' = fileClients s" "length (clients s') = length (clients s)" and
    sp: "removed ev = pre @ post" and tr: "trace s' = trace s @ tr" and
    reg: "workspaceClients s' = fold (\<lambda>f. js_delete (?key f)) pre ?m" and
    ns: "\<forall>c. ClientStart c \<notin> set tr" and
    st: "\<forall>f\<in>set pre. \<forall>c. js_get ?m (?key f) = Some c \<longrightarrow> ClientStop c \<in> set tr" and
    only: "\<forall>c. ClientStop c \<in> set tr \<longrightarrow>
           (\<exists>f\<in>set (pre @ take 1 post). js_get ?m (?key f) = Some c)" and
    ok: "r = None \<longrightarrow> post = []" and
    rej: "\<forall>e. r = Some e \<longrightarrow> e = ClientRejected \<and> post \<noteq> [] \<and> tr \<noteq> [] \<and>
           ?key (hd post) \<notin> ?key ` set pre \<and>
           (\<exists>c. js_get ?m (?key (hd post)) = Some c \<and> last tr = ClientStop c)"
    by auto
  from tr have dr: "drop (length (trace s)) (trace s') = tr" by simp
  have get: "\<And>k. js_get (workspaceClients s') k =
               (if k \<in> ?key ` set pre then None else js_get ?m k)"
    unfolding reg by (rule js_get_fold_delete)
  have frame: "\<forall>k. k \<notin> ?key ` set (removed ev) \<longrightarrow>
        js_get (workspaceClients s') k = js_get ?m k"
    using get sp by auto
  have cl: "\<forall>c. ClientStop c \<notin> set tr \<longrightarrow> clients s' ! c = clients s ! c"
  proof (intro allI impI)
    fix c assume "ClientStop c \<notin> set tr"
    with dr have "ClientStop c \<notin> set (drop (length (trace ?s0)) (trace s'))" by simp
    from remove_all_clients [OF run this] show "clients s' ! c = clients s ! c" by simp
  qed
  have pre: "\<forall>f\<in>set pre. js_get (workspaceClients s') (?key f) = None \<and>
         (\<forall>c. js_get ?m (?key f) = Some c \<longrightarrow> ClientStop c \<in> set tr)"
    using get st by auto
  have rej': "\<forall>e. r = Some e \<longrightarrow> e = ClientRejected \<and> post \<noteq> [] \<and>
           (\<exists>c. js_get ?m (?key (hd post)) = Some c \<and>
                js_get (workspaceClients s') (?key (hd post)) = Some c \<and>
                tr \<noteq> [] \<and> last tr = ClientStop c)"
    using rej get by auto
  from a ns frame cl sp reg pre only ok rej' show ?thesis unfolding dr by blast
qed

theorem didChangeWorkspaceFolders_frame_witness:
  "run_frames host_none (\<lambda>n. True)
     (fst (didChangeWorkspaceFolders \<lparr>added = [folderB], removed = [folderA]\<rparr> state_AB))
     (snd (didChangeWorkspaceFolders \<lparr>added = [folderB], removed = [folderA]\<rparr> state_AB)) =
   (None, state_AB
      \<lparr>workspaceClients := [None, Some (''file:///ws/b'', 1)],
       clients := (clients state_AB)[0 := (clients state_AB ! 0)\<lparr>clientState := Stopped\<rparr>],
       trace := trace state_AB @ [ClientStop 0, WorkspaceDelete ''file:///ws/a'']\<rparr>) \<and>
   fst (run_frames host_none (\<lambda>n. n = 7)
     (fst (didChangeWorkspaceFolders folders_AB_removed state_AB))
     (snd (didChangeWorkspaceFolders folders_AB_removed state_AB))) = Some ClientRejected \<and>
   workspaceClients (snd (run_frames host_none (\<lambda>n. n = 7)
     (fst (didChangeWorkspaceFolders folders_AB_removed state_AB))
     (snd (didChangeWorkspaceFolders folders_AB_removed state_AB)))) =
     [None, Some (''file:///ws/b'', 1)] \<and>
   fileClients (snd (run_frames host_none (\<lambda>n. n = 7)
     (fst (didChangeWorkspaceFolders folders_AB_removed state_AB))
     (snd (didChangeWorkspaceFolders folders_AB_removed state_AB)))) =
     [Some (''file:///tmp/x.gr'', 2)] \<and>
   trace (snd (run_frames host_none (\<lambda>n. n = 7)
     (fst (didChangeWorkspaceFolders folders_AB_removed state_AB))
     (snd (didChangeWorkspaceFolders folders_AB_removed state_AB)))) =
     trace state_AB @ [ClientStop 0, WorkspaceDelete ''file:///ws/a'', ClientStop 1] \<and>
   clients (snd (run_frames host_none (\<lambda>n. n = 7)
     (fst (didChangeWorkspaceFolders folders_AB_removed state_AB))
     (snd (didChangeWorkspaceFolders folders_AB_removed state_AB)))) ! 2 = clients state_AB ! 2"
proof -
  let ?ev = "\<lparr>added = [folderB], removed = [folderA]\<rparr>"
  let ?a = "run_frames host_none (\<lambda>n. True) (fst (didChangeWorkspaceFolders ?ev state_AB))
              (snd (didChangeWorkspaceFolders ?ev state_AB))"
  let ?b = "run_frames host_none (\<lambda>n. n = 7)
              (fst (didChangeWorkspaceFolders folders_AB_removed state_AB))
              (snd (didChangeWorkspaceFolders folders_AB_removed state_AB))"
  have ea: "?a = (None, state_AB
      \<lparr>workspaceClients := [None, Some (''file:///ws/b'', 1)],
       clients := (clients state_AB)[0 := (clients state_AB ! 0)\<lparr>clientState := Stopped\<rparr>],
       trace := trace state_AB @ [ClientStop 0, WorkspaceDelete ''file:///ws/a'']\<rparr>)"
    by (simp add: eval_defs)
  have rb: "fst ?b = Some ClientRejected"
    and wb: "workspaceClients (snd ?b) = [None, Some (''file:///ws/b'', 1)]"
    and tb: "trace (snd ?b) =
               trace state_AB @ [ClientStop 0, WorkspaceDelete ''file:///ws/a'', ClientStop 1]"
    by (simp_all add: eval_defs folders_AB_removed_def)
  have fc: "fileClients state_AB = [Some (''file:///tmp/x.gr'', 2)]"
    by (simp add: state_AB_def initial_state_def)
  have "?b = (fst ?b, snd ?b)" by simp
  note th = didChangeWorkspaceFolders_frame [OF this]
  from tb have "ClientStop 2 \<notin> set (drop (length (trace state_AB)) (trace (snd ?b)))" by simp
  with th have cb: "clients (snd ?b) ! 2 = clients state_AB ! 2" by blast
  from th fc have fb: "fileClients (snd ?b) = [Some (''file:///tmp/x.gr'', 2)]" by simp
  from ea rb wb fb tb cb show ?thesis by simp
qed

section \<open>The LSP switched off\<close>





section \<open>The error handler of a client\<close>

text \<open>
  Claim C5 does not hold of the code: the options \<^verbatim>\<open>startWorkspaceClient\<close> builds have no
  \<^verbatim>\<open>errorHandler\<close>, so a client started for a workspace folder is constructed without the
  handler and its budget of 5. \<^verbatim>\<open>startFileClient\<close> does pass one (lemma
  \<open>startFileClient_errorHandler\<close> below), once the status bar item exists.
\<close>

theorem startWorkspaceClient_no_errorHandler:
  "startWorkspaceClient h folder s = Inr (client, s') \<Longrightarrow>
   client < length (clients s') \<and>
   clientOptions (clients s' ! client) = workspaceClientOptions folder \<and>
   errorHandler (clientOptions (clients s' ! client)) = None"
  by (auto simp: startWorkspaceClient_def client_start_def Let_def workspaceClientOptions_def
      split: sum.splits option.splits)

lemma startFileClient_errorHandler:
  "startFileClient h u s = Inr (client, s') \<Longrightarrow> grainStatusBarItem s = Some item \<Longrightarrow>
   errorHandler (clientOptions (clients s' ! client)) =
     Some \<lparr>handler_name = extensionName, handler_statusItem = item, handler_maxRestartCount = 5\<rparr>"
  by (auto simp: startFileClient_def client_start_def Let_def fileClientOptions_def
      split: sum.splits option.splits)

theorem startWorkspaceClient_no_errorHandler_witness:
  "(case startWorkspaceClient host_linux folderA (createStatusBarEntries initial_state) of
      Inl e \<Rightarrow> False
    | Inr (client, s') \<Rightarrow>
        client = 0 \<and> grainStatusBarItem s' \<noteq> None \<and>
        errorHandler (clientOptions (clients s' ! client)) = None)"
proof (cases "startWorkspaceClient host_linux folderA (createStatusBarEntries initial_state)")
  case (Inl e)
  then show ?thesis
    by (simp add: startWorkspaceClient_def getLspCommand_def host_linux_def host_none_def
          findGrain_def grainBinaries_def Let_def)
next
  case (Inr p)
  obtain client s' where p: "p = (client, s')" by (cases p)
  from startWorkspaceClient_no_errorHandler [OF Inr [unfolded p]]
  have "errorHandler (clientOptions (clients s' ! client)) = None" by blast
  moreover from Inr p have "client = 0" "grainStatusBarItem s' \<noteq> None"
    by (auto simp: startWorkspaceClient_def client_start_def Let_def initial_state_def
          createStatusBarEntries_def split: sum.splits option.splits)
  ultimately show ?thesis using Inr p by simp
qed

section \<open>The outermost workspace folder\<close>

lemma outermost_loop_shortest:
  assumes "sorted (map length elems)"
    and "dirpathFromUri (uri F) \<in> set elems"
    and "\<forall>e\<in>set elems. \<exists>r. workspace_getWorkspaceFolder h e = Some r \<and> P r \<and> dirpathFromUri (uri r) = e"
  shows "\<exists>r. outermost_loop h F elems = Some r \<and> P r \<and>
           prefix (dirpathFromUri (uri r)) (dirpathFromUri (uri F)) \<and>
           (\<forall>e\<in>set elems. prefix e (dirpathFromUri (uri F)) \<longrightarrow>
                length (dirpathFromUri (uri r)) \<le> length e)"
  using assms
proof (induction elems)
  case Nil
  then show ?case by simp
next
  case (Cons e elems)
  show ?case
  proof (cases "prefix e (dirpathFromUri (uri F))")
    case True
    from Cons.prems(3) obtain r where r: "workspace_getWorkspaceFolder h e = Some r" "P r"
      "dirpathFromUri (uri r) = e" by auto
    from Cons.prems(1) have "\<forall>e'\<in>set (e # elems). length e \<le> length e'" by auto
    with True r show ?thesis by (auto simp: Let_def)
  next
    case False
    with Cons.prems(2) have mem: "dirpathFromUri (uri F) \<in> set elems" by auto
    from Cons.prems(1) have srt: "sorted (map length elems)" by simp
    from Cons.prems(3) have hs: "\<forall>e\<in>set elems. \<exists>r. workspace_getWorkspaceFolder h e = Some r \<and>
        P r \<and> dirpathFromUri (uri r) = e" by simp
    from Cons.IH [OF srt mem hs] False show ?thesis by (auto simp: Let_def)
  qed
qed

text \<open>
  The cache is kept in step with the host: it is emptied on every change of the workspace
  folders and filled from the current folders when found empty.
\<close>

lemma didChangeWorkspaceFolders_resets_cache:
  "workspaceFolders (snd (didChangeWorkspaceFolders ev s)) = []"
  by (simp add: didChangeWorkspaceFolders_def)

lemma sortWorkspaceFolders_coherent:
  "workspace_workspaceFolders h = Some folders \<Longrightarrow>
   cache = [] \<or> cache = sort_key length (map (\<lambda>f. dirpathFromUri (uri f)) folders) \<Longrightarrow>
   sortWorkspaceFolders h cache = sort_key length (map (\<lambda>f. dirpathFromUri (uri f)) folders)"
  by (auto simp: sortWorkspaceFolders_def)

text \<open>
  Claim C8. Let \<open>F\<close> be one of the current workspace folders, let the cache be empty or hold
  the current folders' directory paths sorted by length, and let the host resolve the
  directory path of every workspace folder to a workspace folder with that directory path.
  Then \<^verbatim>\<open>getOuterMostWorkspaceFolder(F)\<close> returns a current workspace folder whose directory
  path (its URI with a trailing slash) is a prefix of \<open>F\<close>'s and is no longer than that of
  any current workspace folder whose directory path is a prefix of \<open>F\<close>'s; and a Grain
  document the host places in \<open>F\<close> gets its client and its configuration handler for that
  folder.
\<close>

theorem getOuterMostWorkspaceFolder_shortest_prefix:
  assumes ws: "workspace_workspaceFolders h = Some folders"
    and F: "F \<in> set folders"
    and coh: "cache = [] \<or> cache = sort_key length (map (\<lambda>f. dirpathFromUri (uri f)) folders)"
    and hst: "\<forall>g\<in>set folders. \<exists>r\<in>set folders.
                workspace_getWorkspaceFolder h (dirpathFromUri (uri g)) = Some r \<and>
                dirpathFromUri (uri r) = dirpathFromUri (uri g)"
  shows "\<exists>r\<in>set folders.
           getOuterMostWorkspaceFolder h F cache =
             (Some r, sort_key length (map (\<lambda>f. dirpathFromUri (uri f)) folders)) \<and>
           prefix (dirpathFromUri (uri r)) (dirpathFromUri (uri F)) \<and>
           (\<forall>g\<in>set folders. prefix (dirpathFromUri (uri g)) (dirpathFromUri (uri F)) \<longrightarrow>
                length (dirpathFromUri (uri r)) \<le> length (dirpathFromUri (uri g))) \<and>
           (\<forall>document s. doc_languageId document = languageId \<and>
                workspace_getWorkspaceFolder h (toString (doc_uri document)) = Some F \<and>
                workspaceFolders s = cache \<longrightarrow>
                fst (didOpenTextDocument h document s) =
                  [AddWorkspaceClient r, Subscribe (WorkspaceHandler r)])"
proof -
  let ?sorted = "sort_key length (map (\<lambda>f. dirpathFromUri (uri f)) folders)"
  have sw: "sortWorkspaceFolders h cache = ?sorted"
    by (rule sortWorkspaceFolders_coherent [OF ws coh])
  have srt: "sorted (map length ?sorted)" by (rule sorted_sort_key)
  have set: "set ?sorted = (\<lambda>f. dirpathFromUri (uri f)) ` set folders" by simp
  from F set have mem: "dirpathFromUri (uri F) \<in> set ?sorted" by blast
  from hst set have hs: "\<forall>e\<in>set ?sorted. \<exists>r. workspace_getWorkspaceFolder h e = Some r \<and>
      r \<in> set folders \<and> dirpathFromUri (uri r) = e"
    by auto
  from outermost_loop_shortest [where P = "\<lambda>r. r \<in> set folders", OF srt mem hs]
  obtain r where r: "outermost_loop h F ?sorted = Some r" "r \<in> set folders"
    "prefix (dirpathFromUri (uri r)) (dirpathFromUri (uri F))"
    "\<forall>e\<in>set ?sorted. prefix e (dirpathFromUri (uri F)) \<longrightarrow> length (dirpathFromUri (uri r)) \<le> length e"
    by blast
  have go: "getOuterMostWorkspaceFolder h F cache = (Some r, ?sorted)"
    by (simp add: getOuterMostWorkspaceFolder_def sw r(1) Let_def)
  have short: "\<forall>g\<in>set folders. prefix (dirpathFromUri (uri g)) (dirpathFromUri (uri F)) \<longrightarrow>
                length (dirpathFromUri (uri r)) \<le> length (dirpathFromUri (uri g))"
    using r(4) set by blast
  have opn: "fst (didOpenTextDocument h document s) =
      [AddWorkspaceClient r, Subscribe (WorkspaceHandler r)]"
    if "doc_languageId document = languageId \<and>
        workspace_getWorkspaceFolder h (toString (doc_uri document)) = Some F \<and>
        workspaceFolders s = cache" for document s
    using that go by (simp add: didOpenTextDocument_def Let_def)
  from r(2) r(3) go short opn show ?thesis by blast
qed

lemma host_nested_folders:
  "workspace_workspaceFolders host_nested = Some [folderSub, folderB, folderA]"
  by (simp add: host_nested_def)

lemma nested_dirpaths:
  "dirpathFromUri (uri folderSub) = ''file:///ws/a/sub/''"
  "dirpathFromUri (uri folderA) = ''file:///ws/a/''"
  "dirpathFromUri (uri folderB) = ''file:///ws/b/''"
  by (simp_all add: dirpathFromUri_def folderSub_def uriSub_def folderA_def uriA_def
        folderB_def uriB_def suffix_def Let_def)

theorem getOuterMostWorkspaceFolder_shortest_prefix_witness:
  "getOuterMostWorkspaceFolder host_nested folderSub [] =
     (Some folderA, [''file:///ws/b/'', ''file:///ws/a/'', ''file:///ws/a/sub/'']) \<and>
   fst (didOpenTextDocument host_nested docM initial_state) =
     [AddWorkspaceClient folderA, Subscribe (WorkspaceHandler folderA)]"
proof -
  have F: "folderSub \<in> set [folderSub, folderB, folderA]" by simp
  have coh: "[] = [] \<or>
      [] = sort_key length (map (\<lambda>f. dirpathFromUri (uri f)) [folderSub, folderB, folderA])"
    by simp
  have hst: "\<forall>g\<in>set [folderSub, folderB, folderA]. \<exists>r\<in>set [folderSub, folderB, folderA].
                workspace_getWorkspaceFolder host_nested (dirpathFromUri (uri g)) = Some r \<and>
                dirpathFromUri (uri r) = dirpathFromUri (uri g)"
    by (simp add: nested_dirpaths host_nested_def)
  have srt: "sort_key length (map (\<lambda>f. dirpathFromUri (uri f)) [folderSub, folderB, folderA]) =
      [''file:///ws/b/'', ''file:///ws/a/'', ''file:///ws/a/sub/'']"
    by (simp add: nested_dirpaths)
  from getOuterMostWorkspaceFolder_shortest_prefix [OF host_nested_folders F coh hst]
  obtain r where r: "r \<in> set [folderSub, folderB, folderA]"
    "getOuterMostWorkspaceFolder host_nested folderSub [] =
       (Some r, [''file:///ws/b/'', ''file:///ws/a/'', ''file:///ws/a/sub/''])"
    "\<forall>g\<in>set [folderSub, folderB, folderA].
        prefix (dirpathFromUri (uri g)) (dirpathFromUri (uri folderSub)) \<longrightarrow>
        length (dirpathFromUri (uri r)) \<le> length (dirpathFromUri (uri g))"
    "\<forall>document s. doc_languageId document = languageId \<and>
        workspace_getWorkspaceFolder host_nested (toString (doc_uri document)) = Some folderSub \<and>
        workspaceFolders s = [] \<longrightarrow>
        fst (didOpenTextDocument host_nested document s) =
          [AddWorkspaceClient r, Subscribe (WorkspaceHandler r)]"
    "prefix (dirpathFromUri (uri r)) (dirpathFromUri (uri folderSub))"
    unfolding srt by blast
  from r(3) have "length (dirpathFromUri (uri r)) \<le> length (dirpathFromUri (uri folderA))"
    by (simp add: nested_dirpaths)
  with r(1) r(5) have ra: "r = folderA" by (auto simp: nested_dirpaths)
  have "doc_languageId docM = languageId \<and>
        workspace_getWorkspaceFolder host_nested (toString (doc_uri docM)) = Some folderSub \<and>
        workspaceFolders initial_state = []"
    by (simp add: docM_def uriM_def languageId_def host_nested_def initial_state_def)
  with r(4) have "fst (didOpenTextDocument host_nested docM initial_state) =
          [AddWorkspaceClient r, Subscribe (WorkspaceHandler r)]" by blast
  with r(2) ra show ?thesis by simp
qed

section \<open>The guard releases its key\<close>

lemma exec_activeMutex:
  "\<not> is_Release f \<Longrightarrow> exec h ok f s = (r, s') \<Longrightarrow> activeMutex s' = activeMutex s"
  by (cases f)
     (auto simp: call_defs client_start_def deactivate_files_def deactivate_workspaces_def
             Let_def
           split: if_splits sum.splits option.splits prod.splits)

lemma run_frames_activeMutex:
  "filter is_Release fs = [] \<Longrightarrow> run_frames h ora fs s = (r, s') \<Longrightarrow>
   activeMutex s' = activeMutex s"
proof (induction h ora fs s rule: run_frames.induct)
  case (1 h ora s)
  then show ?case by (simp add: run_frames.simps)
next
  case (2 h ora f fs s)
  obtain x s1 where ex: "exec h (ora (length (trace s))) f s = (x, s1)"
    by (cases "exec h (ora (length (trace s))) f s")
  from "2.prems"(1) have nf: "\<not> is_Release f" and nfs: "filter is_Release fs = []"
    by (auto split: if_splits)
  from exec_activeMutex [OF nf ex] have am: "activeMutex s1 = activeMutex s" .
  show ?case
  proof (cases x)
    case (Inl e)
    with ex nfs "2.prems"(2) am show ?thesis by (simp add: run_frames.simps advance_def)
  next
    case (Inr fs')
    with ex have adv: "advance h (ora (length (trace s))) f fs s = ((None, fs' @ fs), s1)"
      by (simp add: advance_def)
    from ex Inr have "filter is_Release fs' = []" by (auto dest: exec_no_release)
    with nfs have nr: "filter is_Release (fs' @ fs) = []" by simp
    from "2.prems"(2) adv have "run_frames h ora (fs' @ fs) s1 = (r, s')"
      by (simp add: run_frames.simps)
    from "2.IH" [OF adv [symmetric] refl refl nr this] am show ?thesis by simp
  qed
qed

lemma run_frames_mutex:
  "filter is_Release body = [] \<Longrightarrow>
   run_frames h ora (body @ [Release key]) s =
     (case run_frames h ora body s of
        (None, s') \<Rightarrow> (None, s'\<lparr>activeMutex := activeMutex s' - {key}\<rparr>)
      | (Some e, s') \<Rightarrow>
          (None, s'\<lparr>trace := trace s' @ [Rethrown e],
                    activeMutex := activeMutex s' - {key}\<rparr>))"
  by (simp add: run_frames_append run_Release split: prod.splits option.splits)

text \<open>
  Claim C10. Let the key be free and let the closure returned by \<^verbatim>\<open>mutex(key, fn)\<close> be called
  and run to its end. Whether \<^verbatim>\<open>fn\<close> resolves or rejects, the closure's task never rejects,
  the key is held while it runs and is released at its end, and a rejection of \<^verbatim>\<open>fn\<close> is
  re-thrown (the last event). A later call for the same key then runs its function.
\<close>

theorem mutex_always_releases:
  assumes free: "key \<notin> activeMutex s"
    and body: "filter is_Release body = []"
    and run: "run_frames h ora (fst (mutex key body s)) (snd (mutex key body s)) = (r, s')"
  shows "fst (mutex key body s) = body @ [Release key] \<and>
         key \<in> activeMutex (snd (mutex key body s)) \<and>
         r = None \<and> key \<notin> activeMutex s' \<and> activeMutex s' = activeMutex s \<and>
         (case run_frames h ora body (snd (mutex key body s)) of
            (None, s2) \<Rightarrow> trace s' = trace s2
          | (Some e, s2) \<Rightarrow> trace s' = trace s2 @ [Rethrown e]) \<and>
         (\<forall>body2. fst (mutex key body2 s') = body2 @ [Release key])"
proof -
  let ?s0 = "s\<lparr>activeMutex := insert key (activeMutex s)\<rparr>"
  from free have m: "mutex key body s = (body @ [Release key], ?s0)" by (simp add: mutex_def)
  obtain rb s2 where rb: "run_frames h ora body ?s0 = (rb, s2)"
    by (cases "run_frames h ora body ?s0")
  from run_frames_activeMutex [OF body rb] have am: "activeMutex s2 = insert key (activeMutex s)"
    by simp
  from run m have "run_frames h ora (body @ [Release key]) ?s0 = (r, s')" by simp
  with rb have res: "r = None \<and> activeMutex s' = activeMutex s2 - {key} \<and>
      (case rb of None \<Rightarrow> trace s' = trace s2 | Some e \<Rightarrow> trace s' = trace s2 @ [Rethrown e])"
    by (auto simp: run_frames_mutex [OF body] split: option.splits)
  with am free have rel: "activeMutex s' = activeMutex s" by auto
  with free have "key \<notin> activeMutex s'" by simp
  then have again: "\<forall>body2. fst (mutex key body2 s') = body2 @ [Release key]"
    by (simp add: mutex_def)
  from m rb res rel free again show ?thesis by (auto split: option.splits)
qed


lemma handler_body_no_release [simp]: "filter is_Release (handler_body cb e) = []"
  by (cases cb) (simp_all add: configSections_def)

theorem mutex_always_releases_witness:
  "fst (run_frames host_linux (\<lambda>n. False)
         (fst (mutex ''file:///ws/a'' (handler_body (WorkspaceHandler folderA) cliPath_changed) state_AB))
         (snd (mutex ''file:///ws/a'' (handler_body (WorkspaceHandler folderA) cliPath_changed) state_AB)))
     = None \<and>
   ''file:///ws/a'' \<notin> activeMutex (snd (run_frames host_linux (\<lambda>n. False)
         (fst (mutex ''file:///ws/a'' (handler_body (WorkspaceHandler folderA) cliPath_changed) state_AB))
         (snd (mutex ''file:///ws/a'' (handler_body (WorkspaceHandler folderA) cliPath_changed) state_AB)))) \<and>
   trace (snd (run_frames host_linux (\<lambda>n. False)
         (fst (mutex ''file:///ws/a'' (handler_body (WorkspaceHandler folderA) cliPath_changed) state_AB))
         (snd (mutex ''file:///ws/a'' (handler_body (WorkspaceHandler folderA) cliPath_changed) state_AB))))
     = trace state_AB @ [ClientStop 0, Rethrown ClientRejected]"
proof -
  let ?body = "handler_body (WorkspaceHandler folderA) cliPath_changed"
  let ?m = "mutex ''file:///ws/a'' ?body state_AB"
  let ?run = "run_frames host_linux (\<lambda>n. False) (fst ?m) (snd ?m)"
  have free: "''file:///ws/a'' \<notin> activeMutex state_AB"
    by (simp add: state_AB_def initial_state_def)
  have body: "filter is_Release ?body = []" by simp
  have run: "?run = (fst ?run, snd ?run)" by simp
  note th = mutex_always_releases [OF free body run]
  have b: "?body = [RemoveWorkspaceClient folderA, AddWorkspaceClient folderA]"
    by (simp add: configSections_def cliPath_changed_def)
  have "fst (run_frames host_linux (\<lambda>n. False) ?body (snd ?m)) = Some ClientRejected"
    and "trace (snd (run_frames host_linux (\<lambda>n. False) ?body (snd ?m))) =
         trace state_AB @ [ClientStop 0]"
    unfolding b by (simp_all add: eval_defs mutex_def)
  with th show ?thesis by (auto split: prod.splits option.splits)
qed

section \<open>Removal before re-adding\<close>

lemma track_append:
  "track cb ph (a @ b) = (case track cb ph a of None \<Rightarrow> None | Some ph' \<Rightarrow> track cb ph' b)"
  by (induction a arbitrary: ph) (auto split: option.splits)

lemma track_refuses_start_before_removal:
  "track cb (Present client) (ClientStart c # evs) = None"
  by simp

lemma startWorkspaceClient_Inr:
  "startWorkspaceClient h f s = Inr (c, s1) \<Longrightarrow>
   c = length (clients s) \<and> trace s1 = trace s @ [ClientStart c] \<and>
   workspaceClients s1 = workspaceClients s \<and> fileClients s1 = fileClients s"
  by (auto simp: startWorkspaceClient_def client_start_def Let_def
           split: sum.splits option.splits)

lemma startFileClient_Inr:
  "startFileClient h u s = Inr (c, s1) \<Longrightarrow>
   c = length (clients s) \<and> trace s1 = trace s @ [ClientStart c] \<and>
   workspaceClients s1 = workspaceClients s \<and> fileClients s1 = fileClients s"
  by (auto simp: startFileClient_def client_start_def Let_def
           split: sum.splits option.splits)

lemma block_workspace:
  assumes run: "run_frames h ora [RemoveWorkspaceClient f, AddWorkspaceClient f] s = (r1, s1)"
  shows "\<exists>B ph1. trace s1 = trace s @ B \<and>
           track (WorkspaceHandler f) (phase_of (js_get (workspaceClients s) (toString (uri f)))) B
             = Some ph1 \<and>
           (r1 = None \<longrightarrow> ph1 = phase_of (js_get (workspaceClients s1) (toString (uri f))))"
proof -
  let ?k = "toString (uri f)"
  let ?cb = "WorkspaceHandler f"
  have add: "\<exists>B ph1. trace s1 = trace s2 @ B \<and> track ?cb Absent B = Some ph1 \<and>
           (r1 = None \<longrightarrow> ph1 = phase_of (js_get (workspaceClients s1) ?k))"
    if a: "run_frames h ora [AddWorkspaceClient f] s2 = (r1, s1)"
      and n: "js_get (workspaceClients s2) ?k = None" for s2
  proof (cases "startWorkspaceClient h f s2")
    case (Inl e)
    with a n have "s1 = s2" by (simp add: run_AddWorkspaceClient)
    moreover from Inl a n have "r1 \<noteq> None" by (auto simp: run_AddWorkspaceClient)
    ultimately show ?thesis by auto
  next
    case (Inr p)
    obtain c s3 where p: "p = (c, s3)" by (cases p)
    from startWorkspaceClient_Inr [OF Inr [unfolded p]]
    have s3: "trace s3 = trace s2 @ [ClientStart c]" by simp
    show ?thesis
    proof (cases "ora (length (trace s3))")
      case True
      with a n Inr p have "r1 = None"
        "trace s1 = trace s3 @ [WorkspaceSet ?k c]"
        "js_get (workspaceClients s1) ?k = Some c"
        by (auto simp: run_AddWorkspaceClient js_get_set)
      with s3 show ?thesis by auto
    next
      case False
      with a n Inr p have "r1 \<noteq> None" "trace s1 = trace s3"
        by (auto simp: run_AddWorkspaceClient)
      with s3 show ?thesis by auto
    qed
  qed
  have split: "run_frames h ora [RemoveWorkspaceClient f, AddWorkspaceClient f] s =
      (case run_frames h ora [RemoveWorkspaceClient f] s of
         (None, s') \<Rightarrow> run_frames h ora [AddWorkspaceClient f] s'
       | (Some e, s') \<Rightarrow> (Some e, s'))"
    using run_frames_Cons [of "RemoveWorkspaceClient f" h ora "[AddWorkspaceClient f]" s]
    by (simp split: prod.splits option.splits)
  show ?thesis
  proof (cases "js_get (workspaceClients s) ?k")
    case None
    with run have "run_frames h ora [AddWorkspaceClient f] s = (r1, s1)"
      unfolding split by (simp add: run_RemoveWorkspaceClient)
    from add [OF this None] None show ?thesis by auto
  next
    case (Some c0)
    let ?s1 = "client_stop c0 s"
    show ?thesis
    proof (cases "ora (length (trace ?s1))")
      case False
      with run Some have "r1 \<noteq> None" "trace s1 = trace s @ [ClientStop c0]"
        unfolding split by (auto simp: run_RemoveWorkspaceClient Let_def)
      with Some show ?thesis by auto
    next
      case True
      let ?s2 = "(set_clientState c0 Stopped ?s1)
                \<lparr>workspaceClients := js_delete ?k (workspaceClients s),
                 trace := trace ?s1 @ [WorkspaceDelete ?k]\<rparr>"
      from run Some True have a: "run_frames h ora [AddWorkspaceClient f] ?s2 = (r1, s1)"
        unfolding split by (simp add: run_RemoveWorkspaceClient Let_def)
      have n: "js_get (workspaceClients ?s2) ?k = None" by (simp add: js_get_delete)
      from add [OF a n] obtain B ph1 where
        B: "trace s1 = trace ?s2 @ B" "track ?cb Absent B = Some ph1"
           "r1 = None \<longrightarrow> ph1 = phase_of (js_get (workspaceClients s1) ?k)"
        by blast
      have "trace s1 = trace s @ ([ClientStop c0, WorkspaceDelete ?k] @ B)"
        using B(1) by simp
      moreover have "track ?cb (Present c0) ([ClientStop c0, WorkspaceDelete ?k] @ B) = Some ph1"
        using B(2) by simp
      ultimately show ?thesis using B(3) Some by (metis phase_of.simps(2))
    qed
  qed
qed

lemma block_file:
  assumes run: "run_frames h ora [RemoveFileClient f, AddFileClient f] s = (r1, s1)"
  shows "\<exists>B ph1. trace s1 = trace s @ B \<and>
           track (FileHandler f) (phase_of (js_get (fileClients s) (toString f))) B
             = Some ph1 \<and>
           (r1 = None \<longrightarrow> ph1 = phase_of (js_get (fileClients s1) (toString f)))"
proof -
  let ?k = "toString f"
  let ?cb = "FileHandler f"
  have add: "\<exists>B ph1. trace s1 = trace s2 @ B \<and> track ?cb Absent B = Some ph1 \<and>
           (r1 = None \<longrightarrow> ph1 = phase_of (js_get (fileClients s1) ?k))"
    if a: "run_frames h ora [AddFileClient f] s2 = (r1, s1)"
      and n: "js_get (fileClients s2) ?k = None" for s2
  proof (cases "startFileClient h f s2")
    case (Inl e)
    with a n have "s1 = s2" by (simp add: run_AddFileClient)
    moreover from Inl a n have "r1 \<noteq> None" by (auto simp: run_AddFileClient)
    ultimately show ?thesis by auto
  next
    case (Inr p)
    obtain c s3 where p: "p = (c, s3)" by (cases p)
    from startFileClient_Inr [OF Inr [unfolded p]]
    have s3: "trace s3 = trace s2 @ [ClientStart c]" by simp
    show ?thesis
    proof (cases "ora (length (trace s3))")
      case True
      with a n Inr p have "r1 = None"
        "trace s1 = trace s3 @ [FileSet ?k c]"
        "js_get (fileClients s1) ?k = Some c"
        by (auto simp: run_AddFileClient js_get_set)
      with s3 show ?thesis by auto
    next
      case False
      with a n Inr p have "r1 \<noteq> None" "trace s1 = trace s3"
        by (auto simp: run_AddFileClient)
      with s3 show ?thesis by auto
    qed
  qed
  have split: "run_frames h ora [RemoveFileClient f, AddFileClient f] s =
      (case run_frames h ora [RemoveFileClient f] s of
         (None, s') \<Rightarrow> run_frames h ora [AddFileClient f] s'
       | (Some e, s') \<Rightarrow> (Some e, s'))"
    using run_frames_Cons [of "RemoveFileClient f" h ora "[AddFileClient f]" s]
    by (simp split: prod.splits option.splits)
  show ?thesis
  proof (cases "js_get (fileClients s) ?k")
    case None
    with run have "run_frames h ora [AddFileClient f] s = (r1, s1)"
      unfolding split by (simp add: run_RemoveFileClient)
    from add [OF this None] None show ?thesis by auto
  next
    case (Some c0)
    let ?s1 = "client_stop c0 s"
    show ?thesis
    proof (cases "ora (length (trace ?s1))")
      case False
      with run Some have "r1 \<noteq> None" "trace s1 = trace s @ [ClientStop c0]"
        unfolding split by (auto simp: run_RemoveFileClient Let_def)
      with Some show ?thesis by auto
    next
      case True
      let ?s2 = "(set_clientState c0 Stopped ?s1)
                \<lparr>fileClients := js_delete ?k (fileClients s),
                 trace := trace ?s1 @ [FileDelete ?k]\<rparr>"
      from run Some True have a: "run_frames h ora [AddFileClient f] ?s2 = (r1, s1)"
        unfolding split by (simp add: run_RemoveFileClient Let_def)
      have n: "js_get (fileClients ?s2) ?k = None" by (simp add: js_get_delete)
      from add [OF a n] obtain B ph1 where
        B: "trace s1 = trace ?s2 @ B" "track ?cb Absent B = Some ph1"
           "r1 = None \<longrightarrow> ph1 = phase_of (js_get (fileClients s1) ?k)"
        by blast
      have "trace s1 = trace s @ ([ClientStop c0, FileDelete ?k] @ B)"
        using B(1) by simp
      moreover have "track ?cb (Present c0) ([ClientStop c0, FileDelete ?k] @ B) = Some ph1"
        using B(2) by simp
      ultimately show ?thesis using B(3) Some by (metis phase_of.simps(2))
    qed
  qed
qed


lemma frames_no_release [simp]:
  "\<not> is_Release (remove_frame cb)" "\<not> is_Release (add_frame cb)"
  by (cases cb; simp)+

lemma block_handler:
  assumes "run_frames h ora [remove_frame cb, add_frame cb] s = (r1, s1)"
  shows "\<exists>B ph1. trace s1 = trace s @ B \<and>
           track cb (phase_of (registered cb s)) B = Some ph1 \<and>
           (r1 = None \<longrightarrow> ph1 = phase_of (registered cb s1))"
proof (cases cb)
  case (WorkspaceHandler f)
  with assms block_workspace [of h ora f s r1 s1] show ?thesis by simp
next
  case (FileHandler u)
  with assms block_file [of h ora u s r1 s1] show ?thesis by simp
qed

lemma blocks_handler:
  "run_frames h ora (concat (replicate n [remove_frame cb, add_frame cb])) s = (r, s') \<Longrightarrow>
   \<exists>T ph'. trace s' = trace s @ T \<and> track cb (phase_of (registered cb s)) T = Some ph'"
proof (induction n arbitrary: s)
  case 0
  then have "s' = s" by (simp add: run_frames.simps(1))
  then show ?case by simp
next
  case (Suc n)
  let ?blk = "[remove_frame cb, add_frame cb]"
  let ?rest = "concat (replicate n ?blk)"
  have nr: "filter is_Release ?blk = []" by simp
  have nrr: "filter is_Release ?rest = []" by (induction n) simp_all
  obtain r1 s1 where b: "run_frames h ora ?blk s = (r1, s1)"
    by (cases "run_frames h ora ?blk s")
  from block_handler [OF b] obtain B ph1 where
    B: "trace s1 = trace s @ B" "track cb (phase_of (registered cb s)) B = Some ph1"
       "r1 = None \<longrightarrow> ph1 = phase_of (registered cb s1)"
    by blast
  have eq: "run_frames h ora (?blk @ ?rest) s = (r, s')" using Suc.prems by simp
  have cont: "(case r1 of None \<Rightarrow> run_frames h ora ?rest s1 | Some e \<Rightarrow> (Some e, s1)) = (r, s')"
    using eq unfolding run_frames_append [OF nr] b by (auto simp: nrr split: option.splits)
  show ?case
  proof (cases r1)
    case None
    with cont have "run_frames h ora ?rest s1 = (r, s')" by simp
    from Suc.IH [OF this] obtain T ph' where
      T: "trace s' = trace s1 @ T" "track cb (phase_of (registered cb s1)) T = Some ph'"
      by blast
    from B None T have "trace s' = trace s @ (B @ T)"
      "track cb (phase_of (registered cb s)) (B @ T) = Some ph'"
      by (simp_all add: track_append)
    then show ?thesis by blast
  next
    case (Some e)
    with cont have "s' = s1" by simp
    with B show ?thesis by blast
  qed
qed

lemma handler_body_blocks:
  "handler_body cb e =
     concat (replicate (length (filter (\<lambda>section. e section (handler_key cb)) configSections))
               [remove_frame cb, add_frame cb])"
  by (cases cb) (simp_all add: configSections_def)

lemma registered_fields [simp]:
  "registered cb (s\<lparr>activeMutex := a\<rparr>) = registered cb s"
  "registered cb (s\<lparr>trace := t\<rparr>) = registered cb s"
  "registered cb (set_clientState c st s) = registered cb s"
  "registered cb (client_stop c s) = registered cb s"
  by (cases cb; simp)+

lemma run_remove_frame:
  assumes "registered cb s = Some c0"
  shows "run_frames h ora [remove_frame cb] s = (r, s') \<Longrightarrow>
     length (clients s') = length (clients s) \<and>
     (if ora (Suc (length (trace s)))
      then r = None \<and> trace s' = trace s @ [ClientStop c0, delete_event cb] \<and>
           registered cb s' = None
      else r = Some ClientRejected \<and> trace s' = trace s @ [ClientStop c0] \<and>
           registered cb s' = Some c0)"
  using assms
  by (cases cb)
     (auto simp: run_RemoveWorkspaceClient run_RemoveFileClient Let_def js_get_delete
           split: if_splits)

lemma run_add_frame:
  assumes "registered cb s = None" and "run_frames h ora [add_frame cb] s = (r, s')"
  shows "(r = None \<and>
          trace s' = trace s @ [ClientStart (length (clients s)), set_event cb (length (clients s))] \<and>
          registered cb s' = Some (length (clients s)) \<and>
          length (clients s') = Suc (length (clients s))) \<or>
         (r \<noteq> None \<and> (trace s' = trace s \<or> trace s' = trace s @ [ClientStart (length (clients s))]) \<and>
          length (clients s) \<le> length (clients s'))"
proof (cases cb)
  case (WorkspaceHandler f)
  show ?thesis
  proof (cases "startWorkspaceClient h f s")
    case (Inl e)
    with assms WorkspaceHandler show ?thesis by (auto simp: run_AddWorkspaceClient)
  next
    case (Inr p)
    obtain c s3 where p: "p = (c, s3)" by (cases p)
    from Inr p have s3: "c = length (clients s)" "trace s3 = trace s @ [ClientStart c]"
      "workspaceClients s3 = workspaceClients s" "length (clients s3) = Suc (length (clients s))"
      by (auto simp: startWorkspaceClient_def client_start_def Let_def
               split: sum.splits option.splits)
    with assms WorkspaceHandler Inr p show ?thesis
      by (auto simp: run_AddWorkspaceClient js_get_set split: if_splits)
  qed
next
  case (FileHandler u)
  show ?thesis
  proof (cases "startFileClient h u s")
    case (Inl e)
    with assms FileHandler show ?thesis by (auto simp: run_AddFileClient)
  next
    case (Inr p)
    obtain c s3 where p: "p = (c, s3)" by (cases p)
    from Inr p have s3: "c = length (clients s)" "trace s3 = trace s @ [ClientStart c]"
      "fileClients s3 = fileClients s" "length (clients s3) = Suc (length (clients s))"
      by (auto simp: startFileClient_def client_start_def Let_def
               split: sum.splits option.splits)
    with assms FileHandler Inr p show ?thesis
      by (auto simp: run_AddFileClient js_get_set split: if_splits)
  qed
qed


lemma handler_events [simp]:
  "delete_event cb \<noteq> Rethrown err" "Rethrown err \<noteq> delete_event cb"
  "set_event cb c \<noteq> Rethrown err" "Rethrown err \<noteq> set_event cb c"
  "delete_event cb \<noteq> ClientStart c" "delete_event cb \<noteq> ClientStop c"
  "set_event cb c \<noteq> ClientStart c'" "set_event cb c \<noteq> ClientStop c'"
  by (cases cb; simp)+

lemma restart_block:
  assumes reg: "registered cb s = Some c0"
    and run: "run_frames h ora [remove_frame cb, add_frame cb] s = (r, s')"
  shows "length (clients s) \<le> length (clients s') \<and>
     (if ora (Suc (length (trace s)))
      then (r = None \<and>
            trace s' = trace s @ [ClientStop c0, delete_event cb,
                                  ClientStart (length (clients s)), set_event cb (length (clients s))] \<and>
            registered cb s' = Some (length (clients s))) \<or>
           (r \<noteq> None \<and>
            (trace s' = trace s @ [ClientStop c0, delete_event cb] \<or>
             trace s' = trace s @ [ClientStop c0, delete_event cb, ClientStart (length (clients s))]))
      else r = Some ClientRejected \<and> trace s' = trace s @ [ClientStop c0] \<and>
           registered cb s' = Some c0)"
proof -
  obtain r1 s1 where rm: "run_frames h ora [remove_frame cb] s = (r1, s1)"
    by (cases "run_frames h ora [remove_frame cb] s")
  note a = run_remove_frame [OF reg rm]
  have split: "run_frames h ora [remove_frame cb, add_frame cb] s =
      (case r1 of None \<Rightarrow> run_frames h ora [add_frame cb] s1 | Some e \<Rightarrow> (Some e, s1))"
    using run_frames_Cons [of "remove_frame cb" h ora "[add_frame cb]" s] rm
    by (simp split: option.splits)
  show ?thesis
  proof (cases "ora (Suc (length (trace s)))")
    case False
    with a run show ?thesis unfolding split by auto
  next
    case True
    with a have r1: "r1 = None" and t1: "trace s1 = trace s @ [ClientStop c0, delete_event cb]"
      and g1: "registered cb s1 = None" and l1: "length (clients s1) = length (clients s)"
      by simp_all
    from run r1 have "run_frames h ora [add_frame cb] s1 = (r, s')" unfolding split by simp
    from run_add_frame [OF g1 this] True t1 l1 show ?thesis by auto
  qed
qed

lemma restart_blocks:
  assumes reg: "registered cb s = Some c0"
    and run: "run_frames h ora (concat (replicate n [remove_frame cb, add_frame cb])) s = (r, s')"
  shows "\<exists>T. trace s' = trace s @ T \<and> (\<forall>err. Rethrown err \<notin> set T) \<and>
     length (clients s) \<le> length (clients s') \<and>
     (r = None \<longrightarrow> length T = 4 * n \<and>
        (\<exists>c'. registered cb s' = Some c' \<and> (n = 0 \<longrightarrow> c' = c0) \<and>
              (0 < n \<longrightarrow> length (clients s) \<le> c' \<and> last T = set_event cb c'))) \<and>
     (0 < n \<longrightarrow> T \<noteq> [] \<and> hd T = ClientStop c0 \<and>
        (\<not> ora (Suc (length (trace s))) \<longrightarrow>
           T = [ClientStop c0] \<and> r = Some ClientRejected \<and> registered cb s' = Some c0) \<and>
        (ora (Suc (length (trace s))) \<longrightarrow> 2 \<le> length T \<and> T ! 1 = delete_event cb))"
  using reg run
proof (induction n arbitrary: s c0)
  case 0
  then have "s' = s" "r = None" by (simp_all add: run_frames.simps(1))
  with 0 show ?case by simp
next
  case (Suc n)
  let ?blk = "[remove_frame cb, add_frame cb]"
  let ?rest = "concat (replicate n ?blk)"
  let ?N = "length (clients s)"
  have nr: "filter is_Release ?blk = []" by simp
  have nrr: "filter is_Release ?rest = []" by (induction n) simp_all
  obtain r1 s1 where b: "run_frames h ora ?blk s = (r1, s1)"
    by (cases "run_frames h ora ?blk s")
  note blk = restart_block [OF Suc.prems(1) b]
  have eq: "run_frames h ora (?blk @ ?rest) s = (r, s')" using Suc.prems(2) by simp
  have cont: "(case r1 of None \<Rightarrow> run_frames h ora ?rest s1 | Some e \<Rightarrow> (Some e, s1)) = (r, s')"
    using eq unfolding run_frames_append [OF nr] b by (auto simp: nrr split: option.splits)
  show ?case
  proof (cases r1)
    case (Some e)
    with cont have r: "r = Some e" and s': "s' = s1" by simp_all
    show ?thesis
    proof (cases "ora (Suc (length (trace s)))")
      case False
      with blk Some r s' show ?thesis by auto
    next
      case True
      with blk Some have "trace s1 = trace s @ [ClientStop c0, delete_event cb] \<or>
             trace s1 = trace s @ [ClientStop c0, delete_event cb, ClientStart ?N]"
        and "?N \<le> length (clients s1)" by auto
      with True r s' show ?thesis by auto
    qed
  next
    case None
    with blk have ora: "ora (Suc (length (trace s)))"
      and t1: "trace s1 = trace s @ [ClientStop c0, delete_event cb, ClientStart ?N, set_event cb ?N]"
      and g1: "registered cb s1 = Some ?N" and l1: "?N \<le> length (clients s1)"
      by (auto split: if_splits)
    from None cont have "run_frames h ora ?rest s1 = (r, s')" by simp
    from Suc.IH [OF g1 this] obtain T where
      T: "trace s' = trace s1 @ T" "\<forall>err. Rethrown err \<notin> set T"
         "length (clients s1) \<le> length (clients s')"
         "r = None \<longrightarrow> length T = 4 * n \<and>
            (\<exists>c'. registered cb s' = Some c' \<and> (n = 0 \<longrightarrow> c' = ?N) \<and>
                  (0 < n \<longrightarrow> length (clients s1) \<le> c' \<and> last T = set_event cb c'))"
         "0 < n \<longrightarrow> T \<noteq> []"
      by blast
    let ?B = "[ClientStop c0, delete_event cb, ClientStart ?N, set_event cb ?N]"
    have 1: "trace s' = trace s @ (?B @ T)" using T(1) t1 by simp
    have 2: "\<forall>err. Rethrown err \<notin> set (?B @ T)" using T(2) by simp
    have 3: "length (clients s) \<le> length (clients s')" using T(3) l1 by simp
    have 4: "r = None \<longrightarrow> length (?B @ T) = 4 * Suc n \<and>
        (\<exists>c'. registered cb s' = Some c' \<and> ?N \<le> c' \<and> last (?B @ T) = set_event cb c')"
    proof
      assume rn: "r = None"
      with T(4) obtain c' where c': "length T = 4 * n" "registered cb s' = Some c'"
        "n = 0 \<longrightarrow> c' = ?N" "0 < n \<longrightarrow> length (clients s1) \<le> c' \<and> last T = set_event cb c'"
        by blast
      show "length (?B @ T) = 4 * Suc n \<and>
        (\<exists>c'. registered cb s' = Some c' \<and> ?N \<le> c' \<and> last (?B @ T) = set_event cb c')"
      proof (cases n)
        case 0
        with c' have "T = []" "c' = ?N" by simp_all
        with c'(2) 0 show ?thesis by simp
      next
        case (Suc m)
        with c' T(5) l1 have "T \<noteq> []" "?N \<le> c'" "last T = set_event cb c'" by auto
        with c'(1,2) show ?thesis by auto
      qed
    qed
    have 5: "?B @ T \<noteq> [] \<and> hd (?B @ T) = ClientStop c0 \<and> 2 \<le> length (?B @ T) \<and>
             (?B @ T) ! 1 = delete_event cb" by simp
    from 1 2 3 4 5 ora show ?thesis by (intro exI [of _ "?B @ T"]) auto
  qed
qed

lemma getLsp_linux: "getLspCommand host_linux u = Inr (Some (''/usr/local/bin/grain-linux-x64'', [''lsp'', []]))"
  by (simp add: getLspCommand_def host_linux_def host_none_def findGrain_def grainBinaries_def
        lowercase_exe_def suffix_def Let_def)

text \<open>
  Claim C3, as stated, fails for an event that arrives while an earlier call of the key's
  handler is pending. Folder A's handler is restarting the client after a change of
  \<^verbatim>\<open>grain.cliPath\<close>: it has stopped the old client, deleted its entry and started client 3
  with the flags in force. Then \<^verbatim>\<open>grain.cliFlags\<close> changes for folder A. The key is held, so
  the handler's call for this event does nothing: the system is as before but for one more
  task, which is empty. When everything has settled the handler has removed and re-added
  once, and the client that runs was started with the old flags.
\<close>

theorem configHandler_event_dropped:
  "cliFlags_changed ''grain.cliFlags'' (handler_key (WorkspaceHandler folderA)) \<and>
   configHandlers (ext (run restart_pending system_A)) = [WorkspaceHandler folderA] \<and>
   tasks (run restart_pending system_A) =
     [[AwaitWorkspaceStart folderA 3, Release ''file:///ws/a'']] \<and>
   step host_debug (DidChangeConfiguration cliFlags_changed) (run restart_pending system_A) =
     (run restart_pending system_A)\<lparr>tasks := tasks (run restart_pending system_A) @ [[]]\<rparr> \<and>
   tasks (run flags_change_dropped system_A) = [[], []] \<and>
   trace (ext (run flags_change_dropped system_A)) =
     trace state_AB @
     [ClientStop 0, WorkspaceDelete ''file:///ws/a'', ClientStart 3, WorkspaceSet ''file:///ws/a'' 3] \<and>
   serverOptions (clients (ext (run flags_change_dropped system_A)) ! 3) =
     (''/usr/local/bin/grain-linux-x64'', [''lsp'', []]) \<and>
   getLspCommand host_debug uriA =
     Inr (Some (''/usr/local/bin/grain-linux-x64'', [''lsp'', ''--debug'']))"
proof -
  have g: "getLspCommand host_debug uriA =
     Inr (Some (''/usr/local/bin/grain-linux-x64'', [''lsp'', ''--debug'']))"
    by (simp add: getLspCommand_def host_debug_def host_linux_def host_none_def findGrain_def
          grainBinaries_def lowercase_exe_def suffix_def Let_def uriA_def)
  have p: "run restart_pending system_A =
     \<lparr>ext = (snd (client_start
                \<lparr>serverOptions = (''/usr/local/bin/grain-linux-x64'', [''lsp'', []]),
                 clientOptions = workspaceClientOptions folderA, clientState = Starting\<rparr>
                ((set_clientState 0 Stopped (client_stop 0 state_AB))
                   \<lparr>workspaceClients := [None, Some (''file:///ws/b'', 1)],
                    trace := trace state_AB @ [ClientStop 0, WorkspaceDelete ''file:///ws/a''],
                    activeMutex := {''file:///ws/a''},
                    configHandlers := [WorkspaceHandler folderA]\<rparr>))),
      tasks = [[AwaitWorkspaceStart folderA 3, Release ''file:///ws/a'']]\<rparr>"
    by (simp add: restart_pending_def system_A_def system_defs eval_defs getLsp_linux)
  have a: "cliFlags_changed ''grain.cliFlags'' (handler_key (WorkspaceHandler folderA))"
    by (simp add: cliFlags_changed_def)
  have b: "step host_debug (DidChangeConfiguration cliFlags_changed) (run restart_pending system_A) =
     (run restart_pending system_A)\<lparr>tasks := tasks (run restart_pending system_A) @ [[]]\<rparr>"
    unfolding p
    by (simp add: system_defs eval_defs cliFlags_changed_def)
  have c: "tasks (run flags_change_dropped system_A) = [[], []]"
    "trace (ext (run flags_change_dropped system_A)) =
     trace state_AB @
     [ClientStop 0, WorkspaceDelete ''file:///ws/a'', ClientStart 3, WorkspaceSet ''file:///ws/a'' 3]"
    "serverOptions (clients (ext (run flags_change_dropped system_A)) ! 3) =
     (''/usr/local/bin/grain-linux-x64'', [''lsp'', []])"
    by (simp_all add: flags_change_dropped_def restart_pending_def system_A_def system_defs
          eval_defs getLsp_linux cliFlags_changed_def)
  from p have d: "configHandlers (ext (run restart_pending system_A)) = [WorkspaceHandler folderA]"
    "tasks (run restart_pending system_A) =
       [[AwaitWorkspaceStart folderA 3, Release ''file:///ws/a'']]"
    by (simp_all add: client_start_def Let_def)
  from a b c d g show ?thesis by simp
qed

text \<open>
  Claim C3, amended. A call of the configuration handler of a key, for a workspace folder or
  for a single file, run to its end with no other handler in between.

  When an earlier call for the key is still pending (the key is in \<^verbatim>\<open>activeMutex\<close>) the
  call does nothing. In every case the events of the call are accepted by \<open>track\<close> from the
  phase of the key at the call: a client is started for the key only when the key has no
  entry, and an entry is deleted only after \<^verbatim>\<open>stop()\<close> was called on its client.

  When the key is free, a client \<open>c0\<close> is registered for it and the event affects at least
  one of \<^verbatim>\<open>grain.cliFlags\<close>, \<^verbatim>\<open>grain.cliPath\<close>, \<^verbatim>\<open>grain.enableLSP\<close> for the key: the first
  thing the handler does is to call \<^verbatim>\<open>stop()\<close> on \<open>c0\<close>. If that stop rejects, the error is
  re-thrown, nothing else is done and \<open>c0\<close> stays registered. If it resolves, the entry is
  deleted next. A re-thrown error is the last event of the call. If no error is re-thrown,
  the call has made four steps (stop, delete, start, set) for each affected setting, and at
  its end the key's entry is a client constructed during the call, stored by the last step.
\<close>

theorem configHandler_restarts_client:
  assumes run: "run_frames h ora (fst (configHandler cb e s)) (snd (configHandler cb e s)) = (r, s')"
  shows "(handler_key cb \<in> activeMutex s \<longrightarrow> configHandler cb e s = ([], s) \<and> s' = s) \<and>
     track cb (phase_of (registered cb s)) (drop (length (trace s)) (trace s')) \<noteq> None \<and>
     (handler_key cb \<notin> activeMutex s \<and> registered cb s = Some c0 \<and>
      (\<exists>section\<in>set configSections. e section (handler_key cb)) \<longrightarrow>
        drop (length (trace s)) (trace s') \<noteq> [] \<and>
        hd (drop (length (trace s)) (trace s')) = ClientStop c0 \<and>
        (\<not> ora (Suc (length (trace s))) \<longrightarrow>
           drop (length (trace s)) (trace s') = [ClientStop c0, Rethrown ClientRejected] \<and>
           registered cb s' = Some c0) \<and>
        (ora (Suc (length (trace s))) \<longrightarrow>
           2 \<le> length (drop (length (trace s)) (trace s')) \<and>
           drop (length (trace s)) (trace s') ! 1 = delete_event cb) \<and>
        (\<forall>err. Rethrown err \<in> set (drop (length (trace s)) (trace s')) \<longrightarrow>
           last (drop (length (trace s)) (trace s')) = Rethrown err) \<and>
        ((\<forall>err. Rethrown err \<notin> set (drop (length (trace s)) (trace s'))) \<longrightarrow>
           length (drop (length (trace s)) (trace s')) =
             4 * length (filter (\<lambda>section. e section (handler_key cb)) configSections) \<and>
           (\<exists>c'. registered cb s' = Some c' \<and> length (clients s) \<le> c' \<and>
                 last (drop (length (trace s)) (trace s')) = set_event cb c')))"
proof (cases "handler_key cb \<in> activeMutex s")
  case True
  then have ch: "configHandler cb e s = ([], s)" by (simp add: configHandler_def mutex_def)
  with run have "s' = s" by (simp add: run_frames.simps(1))
  with True ch show ?thesis by simp
next
  case False
  let ?key = "handler_key cb"
  let ?n = "length (filter (\<lambda>section. e section ?key) configSections)"
  let ?body = "concat (replicate ?n [remove_frame cb, add_frame cb])"
  let ?s0 = "s\<lparr>activeMutex := insert ?key (activeMutex s)\<rparr>"
  let ?tr = "drop (length (trace s)) (trace s')"
  have reg0: "registered cb ?s0 = registered cb s" by simp
  from False have ch: "configHandler cb e s = (?body @ [Release ?key], ?s0)"
    by (simp add: configHandler_def mutex_def handler_body_blocks [symmetric])
  obtain rb s2 where rb: "run_frames h ora ?body ?s0 = (rb, s2)"
    by (cases "run_frames h ora ?body ?s0")
  have nb: "filter is_Release ?body = []"
    using handler_body_no_release [of cb e] by (simp add: handler_body_blocks [symmetric])
  from run have "run_frames h ora (?body @ [Release ?key]) ?s0 = (r, s')" unfolding ch by simp
  then have fin: "(case rb of None \<Rightarrow> trace s' = trace s2
                   | Some err \<Rightarrow> trace s' = trace s2 @ [Rethrown err]) \<and>
                  registered cb s' = registered cb s2"
    unfolding run_frames_mutex [OF nb] rb by (auto split: option.splits)
  from blocks_handler [OF rb] reg0 obtain T0 ph' where
    T0: "trace s2 = trace s @ T0" "track cb (phase_of (registered cb s)) T0 = Some ph'"
    by auto
  have trk: "track cb (phase_of (registered cb s)) ?tr \<noteq> None"
  proof (cases rb)
    case None
    with fin T0 show ?thesis by simp
  next
    case (Some err)
    with fin T0 have "?tr = T0 @ [Rethrown err]" by simp
    with T0(2) show ?thesis by (simp add: track_append)
  qed
  have main: "?tr \<noteq> [] \<and> hd ?tr = ClientStop c0 \<and>
        (\<not> ora (Suc (length (trace s))) \<longrightarrow>
           ?tr = [ClientStop c0, Rethrown ClientRejected] \<and> registered cb s' = Some c0) \<and>
        (ora (Suc (length (trace s))) \<longrightarrow> 2 \<le> length ?tr \<and> ?tr ! 1 = delete_event cb) \<and>
        (\<forall>err. Rethrown err \<in> set ?tr \<longrightarrow> last ?tr = Rethrown err) \<and>
        ((\<forall>err. Rethrown err \<notin> set ?tr) \<longrightarrow>
           length ?tr = 4 * ?n \<and>
           (\<exists>c'. registered cb s' = Some c' \<and> length (clients s) \<le> c' \<and>
                 last ?tr = set_event cb c'))"
    if reg: "registered cb s = Some c0"
      and aff: "\<exists>section\<in>set configSections. e section ?key"
  proof -
    from aff have n: "0 < ?n" by (auto simp: filter_empty_conv)
    from reg have "registered cb ?s0 = Some c0" by simp
    from restart_blocks [OF this rb] n obtain T where
      T: "trace s2 = trace s @ T" "\<forall>err. Rethrown err \<notin> set T"
         "rb = None \<longrightarrow> length T = 4 * ?n \<and>
            (\<exists>c'. registered cb s2 = Some c' \<and> length (clients s) \<le> c' \<and>
                  last T = set_event cb c')"
         "T \<noteq> []" "hd T = ClientStop c0"
         "\<not> ora (Suc (length (trace s))) \<longrightarrow>
            T = [ClientStop c0] \<and> rb = Some ClientRejected \<and> registered cb s2 = Some c0"
         "ora (Suc (length (trace s))) \<longrightarrow> 2 \<le> length T \<and> T ! 1 = delete_event cb"
      by auto
    show ?thesis
    proof (cases rb)
      case None
      with fin T(1) have tr: "?tr = T" by simp
      from T None fin show ?thesis unfolding tr by auto
    next
      case (Some err)
      with fin T(1) have tr: "?tr = T @ [Rethrown err]" by simp
      from T(6) Some fin have a: "\<not> ora (Suc (length (trace s))) \<longrightarrow>
           T @ [Rethrown err] = [ClientStop c0, Rethrown ClientRejected] \<and>
           registered cb s' = Some c0" by auto
      from T(7) have b: "ora (Suc (length (trace s))) \<longrightarrow>
           2 \<le> length (T @ [Rethrown err]) \<and> (T @ [Rethrown err]) ! 1 = delete_event cb"
        by (auto simp: nth_append)
      from T(2) have c: "\<forall>err'. Rethrown err' \<in> set (T @ [Rethrown err]) \<longrightarrow>
           last (T @ [Rethrown err]) = Rethrown err'" by auto
      from T(4,5) have d: "T @ [Rethrown err] \<noteq> [] \<and> hd (T @ [Rethrown err]) = ClientStop c0"
        by simp
      from a b c d show ?thesis unfolding tr by auto
    qed
  qed
  from False trk main show ?thesis by blast
qed

theorem configHandler_restarts_client_witness:
  "drop (length (trace state_AB))
     (trace (snd (run_frames host_linux (\<lambda>n. True)
        (fst (configHandler (WorkspaceHandler folderA) cliPath_changed state_AB))
        (snd (configHandler (WorkspaceHandler folderA) cliPath_changed state_AB))))) =
     [ClientStop 0, WorkspaceDelete ''file:///ws/a'', ClientStart 3, WorkspaceSet ''file:///ws/a'' 3] \<and>
   registered (WorkspaceHandler folderA)
     (snd (run_frames host_linux (\<lambda>n. True)
        (fst (configHandler (WorkspaceHandler folderA) cliPath_changed state_AB))
        (snd (configHandler (WorkspaceHandler folderA) cliPath_changed state_AB)))) = Some 3 \<and>
   drop (length (trace state_AB))
     (trace (snd (run_frames host_linux (\<lambda>n. True)
        (fst (configHandler (FileHandler uriX) flags_and_path_changed state_AB))
        (snd (configHandler (FileHandler uriX) flags_and_path_changed state_AB))))) =
     [ClientStop 2, FileDelete ''file:///tmp/x.gr'', ClientStart 3, FileSet ''file:///tmp/x.gr'' 3,
      ClientStop 3, FileDelete ''file:///tmp/x.gr'', ClientStart 4, FileSet ''file:///tmp/x.gr'' 4] \<and>
   registered (FileHandler uriX)
     (snd (run_frames host_linux (\<lambda>n. True)
        (fst (configHandler (FileHandler uriX) flags_and_path_changed state_AB))
        (snd (configHandler (FileHandler uriX) flags_and_path_changed state_AB)))) = Some 4 \<and>
   drop (length (trace state_AB))
     (trace (snd (run_frames host_linux (\<lambda>n. False)
        (fst (configHandler (FileHandler uriX) flags_and_path_changed state_AB))
        (snd (configHandler (FileHandler uriX) flags_and_path_changed state_AB))))) =
     [ClientStop 2, Rethrown ClientRejected] \<and>
   registered (FileHandler uriX)
     (snd (run_frames host_linux (\<lambda>n. False)
        (fst (configHandler (FileHandler uriX) flags_and_path_changed state_AB))
        (snd (configHandler (FileHandler uriX) flags_and_path_changed state_AB)))) = Some 2 \<and>
   track (WorkspaceHandler folderA) (Present 0)
     [ClientStart 3, WorkspaceSet ''file:///ws/a'' 3, ClientStop 0, WorkspaceDelete ''file:///ws/a'']
     = None"
proof -
  let ?w = "WorkspaceHandler folderA"
  let ?f = "FileHandler uriX"
  let ?a = "run_frames host_linux (\<lambda>n. True) (fst (configHandler ?w cliPath_changed state_AB))
        (snd (configHandler ?w cliPath_changed state_AB))"
  let ?b = "run_frames host_linux (\<lambda>n. True) (fst (configHandler ?f flags_and_path_changed state_AB))
        (snd (configHandler ?f flags_and_path_changed state_AB))"
  let ?c = "run_frames host_linux (\<lambda>n. False) (fst (configHandler ?f flags_and_path_changed state_AB))
        (snd (configHandler ?f flags_and_path_changed state_AB))"
  have chw: "configHandler ?w cliPath_changed state_AB =
      ([RemoveWorkspaceClient folderA, AddWorkspaceClient folderA, Release ''file:///ws/a''],
       state_AB\<lparr>activeMutex := {''file:///ws/a''}\<rparr>)"
    by (simp add: configHandler_def mutex_def configSections_def cliPath_changed_def
          state_AB_def initial_state_def folderA_def uriA_def)
  have chf: "configHandler ?f flags_and_path_changed state_AB =
      ([RemoveFileClient uriX, AddFileClient uriX, RemoveFileClient uriX, AddFileClient uriX,
        Release ''file:///tmp/x.gr''],
       state_AB\<lparr>activeMutex := {''file:///tmp/x.gr''}\<rparr>)"
    by (simp add: configHandler_def mutex_def configSections_def flags_and_path_changed_def
          state_AB_def initial_state_def uriX_def)
  have ta: "drop (length (trace state_AB)) (trace (snd ?a)) =
     [ClientStop 0, WorkspaceDelete ''file:///ws/a'', ClientStart 3, WorkspaceSet ''file:///ws/a'' 3]"
    unfolding chw by (simp add: eval_defs getLsp_linux)
  have tb: "drop (length (trace state_AB)) (trace (snd ?b)) =
     [ClientStop 2, FileDelete ''file:///tmp/x.gr'', ClientStart 3, FileSet ''file:///tmp/x.gr'' 3,
      ClientStop 3, FileDelete ''file:///tmp/x.gr'', ClientStart 4, FileSet ''file:///tmp/x.gr'' 4]"
    unfolding chf by (simp add: eval_defs getLsp_linux)
  have tc: "drop (length (trace state_AB)) (trace (snd ?c)) = [ClientStop 2, Rethrown ClientRejected]"
    unfolding chf by (simp add: eval_defs getLsp_linux)
  have free: "handler_key ?w \<notin> activeMutex state_AB" "handler_key ?f \<notin> activeMutex state_AB"
    by (simp_all add: state_AB_def initial_state_def)
  have regw: "registered ?w state_AB = Some 0" and regf: "registered ?f state_AB = Some 2"
    by (simp_all add: state_AB_def initial_state_def folderA_def uriA_def uriX_def)
  have affw: "\<exists>section\<in>set configSections. cliPath_changed section (handler_key ?w)"
    and afff: "\<exists>section\<in>set configSections. flags_and_path_changed section (handler_key ?f)"
    by (simp_all add: configSections_def cliPath_changed_def flags_and_path_changed_def)
  have "?a = (fst ?a, snd ?a)" by simp
  from configHandler_restarts_client [OF this, of 0] free regw affw
  have "(\<forall>err. Rethrown err \<notin> set (drop (length (trace state_AB)) (trace (snd ?a)))) \<longrightarrow>
          (\<exists>c'. registered ?w (snd ?a) = Some c' \<and>
                last (drop (length (trace state_AB)) (trace (snd ?a))) = set_event ?w c')"
    by blast
  then have ra: "registered ?w (snd ?a) = Some 3" unfolding ta by auto
  have "?b = (fst ?b, snd ?b)" by simp
  from configHandler_restarts_client [OF this, of 2] free regf afff
  have "(\<forall>err. Rethrown err \<notin> set (drop (length (trace state_AB)) (trace (snd ?b)))) \<longrightarrow>
          (\<exists>c'. registered ?f (snd ?b) = Some c' \<and>
                last (drop (length (trace state_AB)) (trace (snd ?b))) = set_event ?f c')"
    by blast
  then have rb: "registered ?f (snd ?b) = Some 4" unfolding tb by auto
  have "?c = (fst ?c, snd ?c)" by simp
  from configHandler_restarts_client [OF this, of 2] free regf afff
  have rc: "registered ?f (snd ?c) = Some 2" by blast
  from ta ra tb rb tc rc show ?thesis by simp
qed

section \<open>No two guarded calls for one key\<close>

lemma release_keys_append [simp]: "release_keys (a @ b) = release_keys a @ release_keys b"
  by (induction a rule: release_keys.induct) simp_all

lemma release_keys_filter [simp]: "release_keys (filter is_Release fs) = release_keys fs"
  by (induction fs rule: release_keys.induct) simp_all

lemma release_keys_none: "filter is_Release fs = [] \<Longrightarrow> release_keys fs = []"
  by (induction fs rule: release_keys.induct) (simp_all split: if_splits)

lemma set_release_keys: "key \<in> set (release_keys fs) \<longleftrightarrow> Release key \<in> set fs"
  by (induction fs rule: release_keys.induct) auto

lemma settle_activeMutex [simp]: "activeMutex (settle r s) = activeMutex s"
  by (simp add: settle_def split: option.splits)

lemma advance_Release:
  "advance h ok (Release key) fs s = ((None, fs), s\<lparr>activeMutex := activeMutex s - {key}\<rparr>)"
  by (simp add: advance_def)

lemma advance_other:
  assumes "\<not> is_Release f" and "advance h ok f fs s = ((r, fs'), s')"
  shows "release_keys fs' = release_keys fs \<and> activeMutex s' = activeMutex s"
proof -
  obtain x s1 where ex: "exec h ok f s = (x, s1)" by (cases "exec h ok f s")
  from exec_activeMutex [OF assms(1) ex] have am: "activeMutex s1 = activeMutex s" .
  show ?thesis
  proof (cases x)
    case (Inl e)
    with ex assms(2) am show ?thesis
      by (auto simp: advance_def release_keys_none split: if_splits)
  next
    case (Inr fs'')
    with ex have "release_keys fs'' = []" by (auto dest: exec_no_release intro: release_keys_none)
    with Inr ex assms(2) am show ?thesis by (auto simp: advance_def)
  qed
qed

lemma inv_update_same:
  assumes "mutex_inv sys" "i < length (tasks sys)"
    "release_keys fs' = release_keys (tasks sys ! i)" "activeMutex s' = activeMutex (ext sys)"
  shows "mutex_inv \<lparr>ext = s', tasks = (tasks sys)[i := fs']\<rparr>"
proof -
  have eq: "release_keys ((tasks sys)[i := fs'] ! j) = release_keys (tasks sys ! j)"
    if "j < length (tasks sys)" for j
    using that assms(2,3) by (cases "j = i") simp_all
  from assms(1,4) show ?thesis
    unfolding mutex_inv_def by (simp add: eq cong: conj_cong)
qed

lemma inv_update_release:
  assumes inv: "mutex_inv sys" and i: "i < length (tasks sys)"
    and rk: "release_keys (tasks sys ! i) = key # release_keys fs'"
    and am: "activeMutex s' = activeMutex (ext sys) - {key}"
  shows "mutex_inv \<lparr>ext = s', tasks = (tasks sys)[i := fs']\<rparr>"
proof -
  let ?ts = "tasks sys"
  have upd: "release_keys (?ts[i := fs'] ! j) =
      (if j = i then release_keys fs' else release_keys (?ts ! j))"
    if "j < length ?ts" for j
    using that i by simp
  from inv i rk have d: "key \<notin> set (release_keys fs')" "distinct (release_keys fs')"
    unfolding mutex_inv_def by (metis distinct.simps(2))+
  from inv i rk have other: "key \<notin> set (release_keys (?ts ! j))"
    if "j < length ?ts" "j \<noteq> i" for j
    using that unfolding mutex_inv_def
    by (metis disjoint_iff list.set_intros(1))
  have sub: "set (release_keys fs') \<subseteq> set (release_keys (?ts ! i))" using rk by auto
  show ?thesis
    unfolding mutex_inv_def
  proof (intro conjI allI impI)
    fix j assume "j < length (tasks \<lparr>ext = s', tasks = ?ts[i := fs']\<rparr>)"
    then have j: "j < length ?ts" by simp
    with inv d show "distinct (release_keys (tasks \<lparr>ext = s', tasks = ?ts[i := fs']\<rparr> ! j))"
      unfolding mutex_inv_def by (simp add: upd)
  next
    fix j l
    assume "j < length (tasks \<lparr>ext = s', tasks = ?ts[i := fs']\<rparr>)"
      "l < length (tasks \<lparr>ext = s', tasks = ?ts[i := fs']\<rparr>)" "j \<noteq> l"
    then have jl: "j < length ?ts" "l < length ?ts" "j \<noteq> l" by simp_all
    with inv have dis: "set (release_keys (?ts ! j)) \<inter> set (release_keys (?ts ! l)) = {}"
      unfolding mutex_inv_def by blast
    from jl dis sub
    show "set (release_keys (tasks \<lparr>ext = s', tasks = ?ts[i := fs']\<rparr> ! j)) \<inter>
          set (release_keys (tasks \<lparr>ext = s', tasks = ?ts[i := fs']\<rparr> ! l)) = {}"
      by (auto simp: upd)
  next
    fix k
    from inv have mem: "k \<in> activeMutex (ext sys) \<longleftrightarrow>
        (\<exists>j<length ?ts. k \<in> set (release_keys (?ts ! j)))"
      unfolding mutex_inv_def by blast
    show "k \<in> activeMutex (ext \<lparr>ext = s', tasks = ?ts[i := fs']\<rparr>) \<longleftrightarrow>
          (\<exists>j<length (tasks \<lparr>ext = s', tasks = ?ts[i := fs']\<rparr>).
             k \<in> set (release_keys (tasks \<lparr>ext = s', tasks = ?ts[i := fs']\<rparr> ! j)))"
    proof
      assume "k \<in> activeMutex (ext \<lparr>ext = s', tasks = ?ts[i := fs']\<rparr>)"
      with am have k: "k \<in> activeMutex (ext sys)" "k \<noteq> key" by auto
      with mem obtain j where j: "j < length ?ts" "k \<in> set (release_keys (?ts ! j))" by blast
      with k rk have "k \<in> set (release_keys (?ts[i := fs'] ! j))"
        by (cases "j = i") (auto simp: upd)
      with j show "\<exists>j<length (tasks \<lparr>ext = s', tasks = ?ts[i := fs']\<rparr>).
             k \<in> set (release_keys (tasks \<lparr>ext = s', tasks = ?ts[i := fs']\<rparr> ! j))"
        by auto
    next
      assume "\<exists>j<length (tasks \<lparr>ext = s', tasks = ?ts[i := fs']\<rparr>).
             k \<in> set (release_keys (tasks \<lparr>ext = s', tasks = ?ts[i := fs']\<rparr> ! j))"
      then obtain j where j: "j < length ?ts" "k \<in> set (release_keys (?ts[i := fs'] ! j))"
        by auto
      have "k \<noteq> key" using j d other by (cases "j = i") (auto simp: upd)
      moreover have "k \<in> activeMutex (ext sys)"
        using j sub mem i by (cases "j = i") (auto simp: upd)
      ultimately show "k \<in> activeMutex (ext \<lparr>ext = s', tasks = ?ts[i := fs']\<rparr>)"
        using am by simp
    qed
  qed
qed

lemma inv_append_none:
  assumes "mutex_inv sys" "release_keys fs' = []" "activeMutex s' = activeMutex (ext sys)"
  shows "mutex_inv \<lparr>ext = s', tasks = tasks sys @ [fs']\<rparr>"
  using assms unfolding mutex_inv_def
  by (auto simp: nth_append less_Suc_eq)

lemma inv_append_key:
  assumes "mutex_inv sys" "release_keys fs' = [key]" "key \<notin> activeMutex (ext sys)"
    "activeMutex s' = insert key (activeMutex (ext sys))"
  shows "mutex_inv \<lparr>ext = s', tasks = tasks sys @ [fs']\<rparr>"
  using assms unfolding mutex_inv_def
  by (auto simp: nth_append less_Suc_eq)


lemma spawn_inv_plain:
  assumes inv: "mutex_inv sys" and nr: "filter is_Release fs = []"
    and am: "activeMutex s = activeMutex (ext sys)"
  shows "mutex_inv (spawn h (fs, s) sys)"
proof (cases fs)
  case Nil
  with inv am show ?thesis by (simp add: spawn_def inv_append_none)
next
  case (Cons f rest)
  with nr have nf: "\<not> is_Release f" and nrest: "filter is_Release rest = []"
    by (auto split: if_splits)
  obtain r fs' s' where adv: "advance h True f rest s = ((r, fs'), s')"
    by (cases "advance h True f rest s") auto
  from advance_other [OF nf adv] nrest
  have "release_keys fs' = []" "activeMutex s' = activeMutex s"
    by (simp_all add: release_keys_none)
  with inv am have "mutex_inv \<lparr>ext = settle r s', tasks = tasks sys @ [fs']\<rparr>"
    by (intro inv_append_none) simp_all
  with Cons nf adv show ?thesis by (simp add: spawn_def)
qed

lemma spawn_inv_mutex:
  assumes inv: "mutex_inv sys" and nr: "filter is_Release body = []"
  shows "mutex_inv (spawn h (mutex key body (ext sys)) sys)"
proof (cases "key \<in> activeMutex (ext sys)")
  case True
  with inv show ?thesis by (simp add: mutex_def spawn_def inv_append_none)
next
  case False
  let ?s0 = "(ext sys)\<lparr>activeMutex := insert key (activeMutex (ext sys))\<rparr>"
  from False have m: "mutex key body (ext sys) = (body @ [Release key], ?s0)"
    by (simp add: mutex_def)
  show ?thesis
  proof (cases body)
    case Nil
    have "mutex_inv \<lparr>ext = ?s0, tasks = tasks sys @ [[Release key]]\<rparr>"
      using inv False by (intro inv_append_key [where key = key]) simp_all
    with m Nil show ?thesis by (simp add: spawn_def)
  next
    case (Cons f rest)
    with nr have nf: "\<not> is_Release f" and nrest: "filter is_Release rest = []"
      by (auto split: if_splits)
    obtain r fs' s' where adv: "advance h True f (rest @ [Release key]) ?s0 = ((r, fs'), s')"
      by (cases "advance h True f (rest @ [Release key]) ?s0") auto
    from advance_other [OF nf adv] nrest
    have "release_keys fs' = [key]" "activeMutex s' = insert key (activeMutex (ext sys))"
      by (simp_all add: release_keys_none)
    with inv False have "mutex_inv \<lparr>ext = settle r s', tasks = tasks sys @ [fs']\<rparr>"
      by (intro inv_append_key [where key = key]) simp_all
    with m Cons nf adv show ?thesis by (simp add: spawn_def)
  qed
qed

lemma handlers_inv:
  "mutex_inv sys \<Longrightarrow>
   mutex_inv (foldl (\<lambda>sys' cb. spawn h (configHandler cb e (ext sys')) sys') sys cbs)"
proof (induction cbs arbitrary: sys)
  case Nil
  then show ?case by simp
next
  case (Cons cb cbs)
  have "mutex_inv (spawn h (configHandler cb e (ext sys)) sys)"
    unfolding configHandler_def by (rule spawn_inv_mutex [OF Cons.prems]) simp
  from Cons.IH [OF this] show ?case by simp
qed

lemma resume_inv:
  assumes inv: "mutex_inv sys"
  shows "mutex_inv (step h (Resume i ok) sys)"
proof (cases "i < length (tasks sys)")
  case False
  with inv show ?thesis by simp
next
  case i: True
  show ?thesis
  proof (cases "tasks sys ! i")
    case Nil
    with i inv show ?thesis by simp
  next
    case (Cons f fs)
    obtain r fs' s' where adv: "advance h ok f fs (ext sys) = ((r, fs'), s')"
      by (cases "advance h ok f fs (ext sys)") auto
    have st: "step h (Resume i ok) sys = \<lparr>ext = settle r s', tasks = (tasks sys)[i := fs']\<rparr>"
      using i Cons adv by simp
    show ?thesis
    proof (cases "is_Release f")
      case True
      then obtain key where f: "f = Release key" by (cases f) simp_all
      with adv have "fs' = fs" "activeMutex s' = activeMutex (ext sys) - {key}" "r = None"
        by (auto simp: advance_Release)
      with inv i Cons f show ?thesis
        unfolding st by (intro inv_update_release [where key = key]) simp_all
    next
      case False
      from advance_other [OF False adv]
      have "release_keys fs' = release_keys fs" "activeMutex s' = activeMutex (ext sys)"
        by simp_all
      moreover from False Cons have "release_keys (tasks sys ! i) = release_keys fs"
        by (cases f) simp_all
      ultimately show ?thesis
        unfolding st using inv i by (intro inv_update_same) simp_all
    qed
  qed
qed

lemma didOpenTextDocument_plain:
  "filter is_Release (fst (didOpenTextDocument h document s)) = [] \<and>
   activeMutex (snd (didOpenTextDocument h document s)) = activeMutex s"
  by (simp add: didOpenTextDocument_def Let_def split: option.splits prod.splits)

lemma step_inv:
  assumes inv: "mutex_inv sys"
  shows "mutex_inv (step h a sys)"
proof (cases a)
  case (DidOpenTextDocument document)
  obtain fs s where d: "didOpenTextDocument h document (ext sys) = (fs, s)"
    by (cases "didOpenTextDocument h document (ext sys)")
  with didOpenTextDocument_plain [of h document "ext sys"]
  have "filter is_Release fs = []" "activeMutex s = activeMutex (ext sys)" by simp_all
  from spawn_inv_plain [OF inv this] d DidOpenTextDocument show ?thesis by simp
next
  case (DidChangeConfiguration e)
  with inv show ?thesis by (simp add: handlers_inv)
next
  case (DidChangeWorkspaceFolders ev)
  have "mutex_inv (spawn h (map RemoveWorkspaceClient (removed ev),
                            (ext sys)\<lparr>workspaceFolders := []\<rparr>) sys)"
    by (rule spawn_inv_plain [OF inv]) simp_all
  with DidChangeWorkspaceFolders show ?thesis by (simp add: didChangeWorkspaceFolders_def)
next
  case Deactivate
  have "mutex_inv (spawn h ([DeactivateCall], ext sys) sys)"
    by (rule spawn_inv_plain [OF inv]) simp_all
  with Deactivate show ?thesis by (simp add: deactivate_def)
next
  case (Resume i ok)
  with inv show ?thesis by (simp only: resume_inv)
qed

lemma run_inv: "mutex_inv sys \<Longrightarrow> mutex_inv (run acts sys)"
  by (induction acts arbitrary: sys) (auto simp: step_inv)

lemma initial_inv: "activeMutex s0 = {} \<Longrightarrow> mutex_inv \<lparr>ext = s0, tasks = []\<rparr>"
  by (simp add: mutex_inv_def)

text \<open>
  Claim C4. In every state the event loop reaches from a state with no key held, whatever
  the events and the order in which pending tasks are resumed: for every key at most one
  task is a pending call of a guarded function for that key, and the key is in
  \<^verbatim>\<open>activeMutex\<close> exactly while such a task is pending. While the key is held, a further
  call of \<^verbatim>\<open>mutex(key, fn)\<close>'s closure returns at once, runs nothing of \<^verbatim>\<open>fn\<close> and changes
  nothing; a call for a key that is not held takes the key and runs, whichever other keys
  are held.
\<close>

theorem mutex_no_overlap:
  assumes init: "activeMutex s0 = {}"
  shows "(\<forall>i j key. i < length (tasks (run acts \<lparr>ext = s0, tasks = []\<rparr>)) \<and>
            j < length (tasks (run acts \<lparr>ext = s0, tasks = []\<rparr>)) \<and>
            Release key \<in> set (tasks (run acts \<lparr>ext = s0, tasks = []\<rparr>) ! i) \<and>
            Release key \<in> set (tasks (run acts \<lparr>ext = s0, tasks = []\<rparr>) ! j) \<longrightarrow> i = j) \<and>
         (\<forall>key. key \<in> activeMutex (ext (run acts \<lparr>ext = s0, tasks = []\<rparr>)) \<longleftrightarrow>
            (\<exists>i<length (tasks (run acts \<lparr>ext = s0, tasks = []\<rparr>)).
               Release key \<in> set (tasks (run acts \<lparr>ext = s0, tasks = []\<rparr>) ! i))) \<and>
         (\<forall>s key body. key \<in> activeMutex s \<longrightarrow> mutex key body s = ([], s)) \<and>
         (\<forall>sys h key body. key \<in> activeMutex (ext sys) \<longrightarrow>
            spawn h (mutex key body (ext sys)) sys = sys\<lparr>tasks := tasks sys @ [[]]\<rparr>) \<and>
         (\<forall>s key body. key \<notin> activeMutex s \<longrightarrow>
            mutex key body s =
              (body @ [Release key], s\<lparr>activeMutex := insert key (activeMutex s)\<rparr>))"
proof -
  let ?sys = "run acts \<lparr>ext = s0, tasks = []\<rparr>"
  have inv: "mutex_inv ?sys" by (rule run_inv [OF initial_inv [OF init]])
  have one: "i = j" if "i < length (tasks ?sys)" "j < length (tasks ?sys)"
    "Release key \<in> set (tasks ?sys ! i)" "Release key \<in> set (tasks ?sys ! j)" for i j key
  proof (rule ccontr)
    assume "i \<noteq> j"
    with inv that(1,2)
    have "set (release_keys (tasks ?sys ! i)) \<inter> set (release_keys (tasks ?sys ! j)) = {}"
      unfolding mutex_inv_def by blast
    with that(3,4) show False by (auto simp: set_release_keys)
  qed
  have held: "key \<in> activeMutex (ext ?sys) \<longleftrightarrow>
      (\<exists>i<length (tasks ?sys). Release key \<in> set (tasks ?sys ! i))" for key
    using inv unfolding mutex_inv_def by (simp add: set_release_keys)
  have blocked: "mutex key body s = ([], s)" if "key \<in> activeMutex s" for s key body
    using that by (simp add: mutex_def)
  have blocked': "spawn h (mutex key body (ext sys)) sys = sys\<lparr>tasks := tasks sys @ [[]]\<rparr>"
    if "key \<in> activeMutex (ext sys)" for sys h key body
    using that by (simp add: mutex_def spawn_def)
  have free: "mutex key body s =
      (body @ [Release key], s\<lparr>activeMutex := insert key (activeMutex s)\<rparr>)"
    if "key \<notin> activeMutex s" for s key body
    using that by (simp add: mutex_def)
  from one held blocked blocked' free show ?thesis by blast
qed


theorem mutex_no_overlap_witness:
  "activeMutex (ext (run [(host_linux, DidChangeConfiguration cliPath_changed)] system_AB)) =
     {''file:///ws/a'', ''file:///ws/b''} \<and>
   tasks (run [(host_linux, DidChangeConfiguration cliPath_changed)] system_AB) =
     [[AwaitWorkspaceStop folderA 0, AddWorkspaceClient folderA, Release ''file:///ws/a''],
      [],
      [AwaitWorkspaceStop folderB 1, AddWorkspaceClient folderB, Release ''file:///ws/b'']] \<and>
   mutex ''file:///ws/a'' [RemoveWorkspaceClient folderA, AddWorkspaceClient folderA]
     (ext (run [(host_linux, DidChangeConfiguration cliPath_changed)] system_AB)) =
     ([], ext (run [(host_linux, DidChangeConfiguration cliPath_changed)] system_AB))"
proof -
  let ?acts = "[(host_linux, DidChangeConfiguration cliPath_changed)]"
  let ?s0 = "state_AB\<lparr>configHandlers :=
              [WorkspaceHandler folderA, WorkspaceHandler folderA, WorkspaceHandler folderB]\<rparr>"
  have sys: "system_AB = \<lparr>ext = ?s0, tasks = []\<rparr>" by (simp add: system_AB_def)
  have init: "activeMutex ?s0 = {}" by (simp add: state_AB_def initial_state_def)
  have am: "activeMutex (ext (run ?acts system_AB)) = {''file:///ws/a'', ''file:///ws/b''}"
    and ts: "tasks (run ?acts system_AB) =
     [[AwaitWorkspaceStop folderA 0, AddWorkspaceClient folderA, Release ''file:///ws/a''],
      [],
      [AwaitWorkspaceStop folderB 1, AddWorkspaceClient folderB, Release ''file:///ws/b'']]"
    by (simp_all add: system_defs eval_defs insert_commute)
  from am have held: "''file:///ws/a'' \<in> activeMutex (ext (run ?acts system_AB))" by simp
  from mutex_no_overlap [OF init, of ?acts] held
  have "mutex ''file:///ws/a'' [RemoveWorkspaceClient folderA, AddWorkspaceClient folderA]
     (ext (run ?acts system_AB)) = ([], ext (run ?acts system_AB))"
    unfolding sys by blast
  with am ts show ?thesis by simp
qed

section \<open>Overlapping additions for one key\<close>

text \<open>
  Run alone, \<^verbatim>\<open>addFileClient\<close> and \<^verbatim>\<open>addWorkspaceClient\<close> start and store a client only
  when the map has no entry for the key (lemmas \<open>run_AddFileClient\<close> and
  \<open>run_AddWorkspaceClient\<close>). But the entry is stored only after \<^verbatim>\<open>await client.start()\<close>,
  and until then a second call for the key finds no entry either.

  Claim C1 does not hold of the code. Two Grain documents of the workspace folder
  \<^verbatim>\<open>file:///ws/a\<close> are opened, the second before the first client's start has resolved.
  Both calls of \<^verbatim>\<open>addWorkspaceClient\<close> find the map without an entry and each starts a
  client; when both starts have resolved, two clients for the one folder are running and
  the map holds the second only. The first is out of the extension's reach: after
  \<^verbatim>\<open>deactivate\<close> it is still running.
\<close>

theorem overlapping_opens_start_two_clients:
  "map clientState (clients (ext (run two_opens activated))) = [Running, Running] \<and>
   map (\<lambda>c. workspaceFolder (clientOptions c)) (clients (ext (run two_opens activated))) =
     [Some folderA, Some folderA] \<and>
   workspaceClients (ext (run two_opens activated)) = [Some (''file:///ws/a'', 1)] \<and>
   fileClients (ext (run two_opens activated)) = [] \<and>
   map clientState
     (clients (ext (run (two_opens @ [(host_nested, Deactivate), (host_nested, Resume 2 True)])
                      activated))) = [Running, Stopped]"
  by (simp add: system_defs eval_defs getLsp_nested host_nested_sel)

end
